theory Spec2Isabelle
  imports Complex_Main "HOL-Library.Sublist" "HOL-Library.AList" "HOL-Library.Word"
begin

section \<open>Errors\<close>

text \<open>
  Every \<^verbatim>\<open>throw new Error(msg)\<close> of the sources is the value \<open>Error msg\<close>; a
  \<^verbatim>\<open>TypeError\<close> raised by the platform is \<open>TypeError msg\<close>. A function that may throw
  returns a sum, with \<open>Inl\<close> for the thrown error. \<open>message\<close> is the \<^verbatim>\<open>message\<close>
  property read by the \<^verbatim>\<open>catch\<close> blocks of the routes.
\<close>

datatype js_error = Error string | TypeError string

fun message :: "js_error \<Rightarrow> string" where
  "message (Error m) = m"
| "message (TypeError m) = m"

section \<open>The segmenter: \<^verbatim>\<open>src/lib/chunking.ts\<close>\<close>

text \<open>
  A JavaScript string is a sequence of UTF-16 code units; \<^verbatim>\<open>length\<close> and
  \<^verbatim>\<open>slice\<close> count code units. The segmenter never looks at a code unit, so the text is
  a list over any type \<open>'a\<close>. The function is given twice. First with \<^verbatim>\<open>chunkSize\<close>,
  \<^verbatim>\<open>overlap\<close> and \<^verbatim>\<open>position\<close> as integers, which is what character counts are.
  Then with these three as values of the type \<^verbatim>\<open>number\<close> as far as it matters for the
  three checks: an integer or \<^verbatim>\<open>NaN\<close> (fractions and the infinities are left out). The
  two agree on integers (lemma \<open>chunkText_number_integers\<close> below). \<^verbatim>\<open>index\<close> is a
  natural number counted up from zero.
\<close>

record 'a Chunk =
  "text" :: "'a list"
  index :: nat

text \<open>
  \<^verbatim>\<open>String.prototype.slice(start, end)\<close> on integer arguments: a negative argument counts
  from the end of the string, both are clamped to the string, and an empty range gives the
  empty string.
\<close>

definition slice :: "'a list \<Rightarrow> int \<Rightarrow> int \<Rightarrow> 'a list" where
  "slice str start endpos =
     (let len = int (length str);
          from = (if start < 0 then max (len + start) 0 else min start len);
          to = (if endpos < 0 then max (len + endpos) 0 else min endpos len)
      in take (nat (to - from)) (drop (nat from) str))"

text \<open>
  The \<^verbatim>\<open>while (position < text.length)\<close> loop of \<^verbatim>\<open>chunkText\<close>, with the three
  loop variables \<^verbatim>\<open>position\<close>, \<^verbatim>\<open>index\<close> and \<^verbatim>\<open>chunks\<close> as arguments. The loop
  has no guard of its own against a step \<^verbatim>\<open>chunkSize - overlap\<close> that is not positive, so
  it is a partial function: \<open>None\<close> stands for a loop that never returns.
\<close>

partial_function (option) chunkText_loop ::
  "'a list \<Rightarrow> int \<Rightarrow> int \<Rightarrow> int \<Rightarrow> nat \<Rightarrow> 'a Chunk list \<Rightarrow> 'a Chunk list option" where
  "chunkText_loop txt chunkSize overlap position idx chunks =
     (if position < int (length txt) then
        chunkText_loop txt chunkSize overlap (position + (chunkSize - overlap)) (idx + 1)
          (chunks @ [\<lparr>text = slice txt position (position + chunkSize), index = idx\<rparr>])
      else Some chunks)"

declare chunkText_loop.simps [code]

text \<open>
  \<^verbatim>\<open>chunkText(text, chunkSize, overlap)\<close>: the three checks in the order of the source,
  then the loop from position 0 and index 0 with no chunks.
\<close>

definition chunkText :: "'a list \<Rightarrow> int \<Rightarrow> int \<Rightarrow> (js_error + 'a Chunk list) option" where
  "chunkText txt chunkSize overlap =
     (if chunkSize \<le> 0 then Some (Inl (Error ''chunkSize must be positive''))
      else if overlap < 0 then Some (Inl (Error ''overlap cannot be negative''))
      else if overlap \<ge> chunkSize then Some (Inl (Error ''overlap must be smaller than chunkSize''))
      else map_option Inr (chunkText_loop txt chunkSize overlap 0 0 []))"

text \<open>
  A call site may leave out the last two arguments; the defaults of the signature
  (\<^verbatim>\<open>chunkSize = 500\<close>, \<^verbatim>\<open>overlap = 50\<close>) then apply. \<open>None\<close> is an omitted argument.
\<close>

definition chunkText_call :: "'a list \<Rightarrow> int option \<Rightarrow> int option \<Rightarrow> (js_error + 'a Chunk list) option" where
  "chunkText_call txt chunkSize overlap =
     chunkText txt (case chunkSize of None \<Rightarrow> 500 | Some c \<Rightarrow> c)
                   (case overlap of None \<Rightarrow> 50 | Some v \<Rightarrow> v)"

text \<open>
  The type \<^verbatim>\<open>number\<close> with \<^verbatim>\<open>NaN\<close>: every comparison with \<^verbatim>\<open>NaN\<close> is false, a sum or
  a difference with \<^verbatim>\<open>NaN\<close> is \<^verbatim>\<open>NaN\<close>, and \<^verbatim>\<open>slice\<close> reads a \<^verbatim>\<open>NaN\<close> argument
  as 0 (\<^verbatim>\<open>ToIntegerOrInfinity\<close>).
\<close>

datatype number = Number int | NaN

fun js_less :: "number \<Rightarrow> number \<Rightarrow> bool" where
  "js_less (Number a) (Number b) = (a < b)"
| "js_less _ _ = False"

fun js_less_eq :: "number \<Rightarrow> number \<Rightarrow> bool" where
  "js_less_eq (Number a) (Number b) = (a \<le> b)"
| "js_less_eq _ _ = False"

fun js_greater_eq :: "number \<Rightarrow> number \<Rightarrow> bool" where
  "js_greater_eq (Number a) (Number b) = (a \<ge> b)"
| "js_greater_eq _ _ = False"

fun js_plus :: "number \<Rightarrow> number \<Rightarrow> number" where
  "js_plus (Number a) (Number b) = Number (a + b)"
| "js_plus _ _ = NaN"

fun js_minus :: "number \<Rightarrow> number \<Rightarrow> number" where
  "js_minus (Number a) (Number b) = Number (a - b)"
| "js_minus _ _ = NaN"

fun ToIntegerOrInfinity :: "number \<Rightarrow> int" where
  "ToIntegerOrInfinity (Number a) = a"
| "ToIntegerOrInfinity NaN = 0"

text \<open>
  The loop and the function once more, now on \<^verbatim>\<open>number\<close>: the same three checks in the
  same order and the same loop, with the comparisons and the arithmetic of JavaScript.
\<close>

partial_function (option) chunkText_number_loop ::
  "'a list \<Rightarrow> number \<Rightarrow> number \<Rightarrow> number \<Rightarrow> nat \<Rightarrow> 'a Chunk list \<Rightarrow> 'a Chunk list option" where
  "chunkText_number_loop txt chunkSize overlap position idx chunks =
     (if js_less position (Number (int (length txt))) then
        chunkText_number_loop txt chunkSize overlap
          (js_plus position (js_minus chunkSize overlap)) (idx + 1)
          (chunks @ [\<lparr>text = slice txt (ToIntegerOrInfinity position)
                               (ToIntegerOrInfinity (js_plus position chunkSize)),
                      index = idx\<rparr>])
      else Some chunks)"

declare chunkText_number_loop.simps [code]

definition chunkText_number ::
  "'a list \<Rightarrow> number \<Rightarrow> number \<Rightarrow> (js_error + 'a Chunk list) option" where
  "chunkText_number txt chunkSize overlap =
     (if js_less_eq chunkSize (Number 0) then Some (Inl (Error ''chunkSize must be positive''))
      else if js_less overlap (Number 0) then Some (Inl (Error ''overlap cannot be negative''))
      else if js_greater_eq overlap chunkSize
      then Some (Inl (Error ''overlap must be smaller than chunkSize''))
      else map_option Inr (chunkText_number_loop txt chunkSize overlap (Number 0) 0 []))"

section \<open>The embedding client: \<^verbatim>\<open>src/lib/embeddings.ts\<close>\<close>

text \<open>
  One call of \<^verbatim>\<open>openai.embeddings.create\<close> either rejects with an error or resolves with
  a response; of the response only \<^verbatim>\<open>response.data[0]?.embedding\<close> is read, which is
  either missing (\<open>None\<close>) or a vector of numbers. The remote service is a function from the
  number of the request (counted from zero within one call of \<^verbatim>\<open>generateEmbedding\<close>) to
  the outcome of that request.
\<close>

type_synonym EmbeddingVector = "real list"

datatype create_outcome = Rejects js_error | Resolves "EmbeddingVector option"

definition MAX_RETRIES :: nat where
  "MAX_RETRIES = 3"

text \<open>
  The body of the \<^verbatim>\<open>try\<close> block: a rejection and a response without a vector both end
  in the \<^verbatim>\<open>catch\<close> block, the second with the error thrown by the client itself.
\<close>

definition try_create :: "create_outcome \<Rightarrow> js_error + EmbeddingVector" where
  "try_create outcome =
     (case outcome of
        Rejects error \<Rightarrow> Inl error
      | Resolves None \<Rightarrow> Inl (Error ''No embedding returned from OpenAI'')
      | Resolves (Some embedding) \<Rightarrow> Inr embedding)"

text \<open>
  What one call of \<^verbatim>\<open>generateEmbedding\<close> does: the value it returns or the error it
  throws, the delays passed to \<^verbatim>\<open>setTimeout\<close> in the order they were awaited, and the
  number of requests sent to the service.
\<close>

record embedding_run =
  returned :: "js_error + EmbeddingVector"
  delays :: "nat list"
  requests :: nat

text \<open>
  The \<^verbatim>\<open>while (attempt < MAX_RETRIES)\<close> loop with its variables \<^verbatim>\<open>attempt\<close> and
  \<^verbatim>\<open>delayMs\<close>, the delays awaited so far and the number of requests sent so far.
\<close>

function generateEmbedding_loop ::
  "(nat \<Rightarrow> create_outcome) \<Rightarrow> nat \<Rightarrow> nat \<Rightarrow> nat list \<Rightarrow> nat \<Rightarrow> embedding_run" where
  "generateEmbedding_loop create attempt delayMs slept sent =
     (if attempt < MAX_RETRIES then
        (case try_create (create sent) of
           Inr embedding \<Rightarrow> \<lparr>returned = Inr embedding, delays = slept, requests = sent + 1\<rparr>
         | Inl error \<Rightarrow>
             if attempt + 1 \<ge> MAX_RETRIES
             then \<lparr>returned = Inl error, delays = slept, requests = sent + 1\<rparr>
             else generateEmbedding_loop create (attempt + 1) (delayMs * 2)
                    (slept @ [delayMs]) (sent + 1))
      else \<lparr>returned = Inl (Error ''Failed to generate embedding''), delays = slept,
             requests = sent\<rparr>)"
  by pat_completeness auto

termination
  by (relation "measure (\<lambda>(create, attempt, delayMs, slept, sent). MAX_RETRIES - attempt)") auto

declare generateEmbedding_loop.simps [simp del]

definition generateEmbedding :: "(string \<Rightarrow> nat \<Rightarrow> create_outcome) \<Rightarrow> string \<Rightarrow> embedding_run" where
  "generateEmbedding create txt = generateEmbedding_loop (create txt) 0 250 [] 0"

section \<open>Rows of the \<^verbatim>\<open>documents\<close> table\<close>

text \<open>
  \<open>row\<close> is the object the upload route passes to \<^verbatim>\<open>insert\<close>;
  a stored row adds the \<^verbatim>\<open>created_at\<close> column filled in by the table, and a row
  returned by \<^verbatim>\<open>match_documents\<close> adds \<^verbatim>\<open>similarity\<close>. The
  \<^verbatim>\<open>metadata\<close> column is JSON and may be absent in a row that was not written by the
  upload route, hence the option. Timestamps are natural numbers, so that "earliest" has
  a meaning; the \<^verbatim>\<open>id\<close> column is never read and is left out. Field names that occur in
  two records are written with the name of the record in front.
\<close>

type_synonym timestamp = nat

record DocumentSummary =
  source :: string
  chunk_count :: nat
  created_at :: timestamp

record metadata =
  source :: string
  chunk_index :: nat
  total_chunks :: nat

record row =
  content :: string
  embedding :: EmbeddingVector
  metadata :: "metadata option"

record StoredDocument = row +
  created_at :: timestamp

record RetrievedDocument = row +
  similarity :: "real option"

text \<open>
  \<^verbatim>\<open>row.metadata?.source\<close>, as read by the listing route and by the source filter of the
  answering route.
\<close>

definition source_of :: "'a row_scheme \<Rightarrow> string option" where
  "source_of r = (case metadata r of None \<Rightarrow> None | Some m \<Rightarrow> Some (metadata.source m))"

section \<open>Ingestion: \<^verbatim>\<open>POST\<close> of \<^verbatim>\<open>src/app/api/upload/route.ts\<close>\<close>

text \<open>
  \<^verbatim>\<open>Promise.all\<close> over the embedding calls of the chunks: the list of results in the
  order of the chunks when every call succeeds, otherwise a rejection. Which of several
  failing calls is reported depends on their timing; the model reports the first in chunk
  order. The embedding service is indexed by the chunk, since every call has its own retry
  state.
\<close>

fun Promise_all :: "(js_error + 'a) list \<Rightarrow> js_error + 'a list" where
  "Promise_all [] = Inr []"
| "Promise_all (Inl e # ps) = Inl e"
| "Promise_all (Inr x # ps) = (case Promise_all ps of Inl e \<Rightarrow> Inl e | Inr xs \<Rightarrow> Inr (x # xs))"

datatype upload_response = UploadError nat string | UploadSuccess nat

definition embed_chunk ::
  "(nat \<Rightarrow> string \<Rightarrow> nat \<Rightarrow> create_outcome) \<Rightarrow> char Chunk \<Rightarrow> js_error + (char Chunk \<times> EmbeddingVector)" where
  "embed_chunk service chunk =
     (case returned (generateEmbedding (service (index chunk)) (text chunk)) of
        Inl e \<Rightarrow> Inl e
      | Inr vector \<Rightarrow> Inr (chunk, vector))"

text \<open>
  The rows built from the embedded chunks, with \<^verbatim>\<open>total_chunks: chunks.length\<close>.
\<close>

definition build_rows :: "string \<Rightarrow> nat \<Rightarrow> (char Chunk \<times> EmbeddingVector) list \<Rightarrow> row list" where
  "build_rows filename chunks_length embeddings =
     map (\<lambda>(chunk, vector).
            \<lparr>content = text chunk, embedding = vector,
             metadata = Some \<lparr>metadata.source = filename, chunk_index = index chunk,
                              total_chunks = chunks_length\<rparr>\<rparr>) embeddings"

text \<open>
  \<^verbatim>\<open>supabase.from("documents").insert(rows)\<close> when it succeeds: the rows are appended to the
  table, each with the time of the insertion as \<^verbatim>\<open>created_at\<close>.
\<close>

definition insert_rows :: "timestamp \<Rightarrow> StoredDocument list \<Rightarrow> row list \<Rightarrow> StoredDocument list" where
  "insert_rows now table rows =
     table @ map (\<lambda>r. \<lparr>content = content r, embedding = embedding r, metadata = metadata r,
                         StoredDocument.created_at = now\<rparr>) rows"

text \<open>
  The part of the handler shared by both kinds of request, from \<^verbatim>\<open>chunkText(content)\<close>
  to the response. \<open>insert_error\<close> is the error reported by the table, if any. The handler
  returns the response and the table afterwards; \<open>None\<close> would be a handler that never
  returns. The elapsed time in the response is not modelled.
\<close>

definition ingest ::
  "(nat \<Rightarrow> string \<Rightarrow> nat \<Rightarrow> create_outcome) \<Rightarrow> string option \<Rightarrow> timestamp \<Rightarrow>
   StoredDocument list \<Rightarrow> string \<Rightarrow> string \<Rightarrow> (upload_response \<times> StoredDocument list) option" where
  "ingest service insert_error now table contents filename =
     (case chunkText_call contents None None of
        None \<Rightarrow> None
      | Some (Inl e) \<Rightarrow> Some (UploadError 500 (message e), table)
      | Some (Inr chunks) \<Rightarrow>
          (case Promise_all (map (embed_chunk service) chunks) of
             Inl e \<Rightarrow> Some (UploadError 500 (message e), table)
           | Inr embeddings \<Rightarrow>
               (let rows = build_rows filename (length chunks) embeddings in
                case insert_error of
                  Some msg \<Rightarrow> Some (UploadError 500 msg, table)
                | None \<Rightarrow> Some (UploadSuccess (length rows), insert_rows now table rows))))"

text \<open>
  The handler on a JSON request. \<open>None\<close> for \<^verbatim>\<open>content\<close> or \<^verbatim>\<open>filename\<close> is a
  field that is missing or not a string. A multipart request reaches \<open>ingest\<close> with the
  text extracted from the uploaded PDF and is not modelled further.
\<close>

definition POST_upload ::
  "(nat \<Rightarrow> string \<Rightarrow> nat \<Rightarrow> create_outcome) \<Rightarrow> string option \<Rightarrow> timestamp \<Rightarrow>
   StoredDocument list \<Rightarrow> string option \<Rightarrow> string option \<Rightarrow>
   (upload_response \<times> StoredDocument list) option" where
  "POST_upload service insert_error now table body_content body_filename =
     (case body_content of
        None \<Rightarrow> Some (UploadError 400 ''Invalid content. Expecting non-empty string.'', table)
      | Some contents \<Rightarrow>
          if contents = [] then
            Some (UploadError 400 ''Invalid content. Expecting non-empty string.'', table)
          else
            (case body_filename of
               None \<Rightarrow> Some (UploadError 400 ''Invalid filename. Expecting non-empty string.'', table)
             | Some filename \<Rightarrow>
                 if filename = [] then
                   Some (UploadError 400 ''Invalid filename. Expecting non-empty string.'', table)
                 else if length contents > 50000 then
                   Some (UploadError 400 ''File too large. Limit is 50,000 characters.'', table)
                 else ingest service insert_error now table contents filename))"

section \<open>Listing: \<^verbatim>\<open>GET\<close> of \<^verbatim>\<open>src/app/api/documents/route.ts\<close>\<close>

text \<open>
  \<^verbatim>\<open>summaries\<close> is a plain object used as a dictionary. Its own properties are an
  association list in insertion order. A lookup \<^verbatim>\<open>summaries[source]\<close> that finds no own
  property continues in \<^verbatim>\<open>Object.prototype\<close>, whose members are all truthy: for such a
  key no own property is created, and the increment changes the inherited member instead
  of \<^verbatim>\<open>summaries\<close>.
\<close>

definition object_prototype_keys :: "string list" where
  "object_prototype_keys =
     [''constructor'', ''__defineGetter__'', ''__defineSetter__'', ''hasOwnProperty'',
      ''__lookupGetter__'', ''__lookupSetter__'', ''isPrototypeOf'', ''propertyIsEnumerable'',
      ''toString'', ''valueOf'', ''__proto__'', ''toLocaleString'']"

definition has_truthy_member :: "(string \<times> DocumentSummary) list \<Rightarrow> string \<Rightarrow> bool" where
  "has_truthy_member summaries key =
     (map_of summaries key \<noteq> None \<or> key \<in> set object_prototype_keys)"

definition increment_chunk_count ::
  "(string \<times> DocumentSummary) list \<Rightarrow> string \<Rightarrow> (string \<times> DocumentSummary) list" where
  "increment_chunk_count summaries key =
     (case map_of summaries key of
        Some summary \<Rightarrow> AList.update key (summary\<lparr>chunk_count := chunk_count summary + 1\<rparr>) summaries
      | None \<Rightarrow> summaries)"

text \<open>
  One iteration of the loop over the rows: a row without a truthy source is skipped.
\<close>

definition summarise_row ::
  "(string \<times> DocumentSummary) list \<Rightarrow> StoredDocument \<Rightarrow> (string \<times> DocumentSummary) list" where
  "summarise_row summaries r =
     (case source_of r of
        None \<Rightarrow> summaries
      | Some src \<Rightarrow>
          if src = [] then summaries
          else increment_chunk_count
                 (if \<not> has_truthy_member summaries src
                  then AList.update src
                         \<lparr>DocumentSummary.source = src, chunk_count = 0,
                          created_at = StoredDocument.created_at r\<rparr> summaries
                  else summaries) src)"

datatype documents_response = DocumentsError nat string | Documents "DocumentSummary list"

text \<open>
  The handler, given what \<^verbatim>\<open>select("metadata, created_at")\<close> returned: an error message
  or the rows, in the order the table returned them. \<^verbatim>\<open>Object.values\<close> lists the own
  properties in insertion order, except that keys that are array indices come first; the
  properties below are about membership only.
\<close>

definition GET :: "string option \<Rightarrow> StoredDocument list option \<Rightarrow> documents_response" where
  "GET select_error data =
     (case select_error of
        Some msg \<Rightarrow> DocumentsError 500 msg
      | None \<Rightarrow> Documents (map snd (foldl summarise_row []
                                      (case data of None \<Rightarrow> [] | Some rows \<Rightarrow> rows))))"

section \<open>Answering: the second \<^verbatim>\<open>POST\<close> handler, of the route \<^verbatim>\<open>/api/rag\<close>\<close>

text \<open>
  The handler is the second \<^verbatim>\<open>POST\<close> function found in
  \<^verbatim>\<open>src/app/api/upload/route.ts\<close>, the one that imports the Anthropic client.
\<close>

subsection \<open>The generation stream and the output stream\<close>

text \<open>
  The generation stream yields a finite sequence of events and then either ends or throws.
  Only \<^verbatim>\<open>event.type\<close>, \<^verbatim>\<open>event.delta?.type\<close> and \<^verbatim>\<open>event.delta.text\<close> are read.

  The output stream is a \<^verbatim>\<open>ReadableStream\<close> with a default controller. Its state is the
  queue of chunks enqueued and not yet read, the chunks the consumer has read, the state of
  the stream and the flag set by \<^verbatim>\<open>close\<close>. The three controller operations follow the
  Streams standard: \<^verbatim>\<open>enqueue\<close> and \<^verbatim>\<open>close\<close> throw a \<^verbatim>\<open>TypeError\<close> unless the
  stream is readable and \<^verbatim>\<open>close\<close> has not been called; \<^verbatim>\<open>close\<close> closes the stream
  at once when the queue is empty and otherwise when the last queued chunk is read;
  \<^verbatim>\<open>error\<close> does nothing unless the stream is readable, and otherwise empties the queue
  and puts the stream in the errored state.
\<close>

type_synonym byte = "8 word"

datatype delta = text_delta string | other_delta

datatype stream_event = content_block_delta "delta option" | other_event

record claude_stream =
  events :: "stream_event list"
  failure :: "js_error option"

datatype stream_state = Readable | Closed | Errored js_error

record controller =
  queue :: "byte list list"
  delivered :: "byte list list"
  state :: stream_state
  closeRequested :: bool

definition new_controller :: controller where
  "new_controller = \<lparr>queue = [], delivered = [], state = Readable, closeRequested = False\<rparr>"

definition can_close_or_enqueue :: "controller \<Rightarrow> bool" where
  "can_close_or_enqueue c \<longleftrightarrow> state c = Readable \<and> \<not> closeRequested c"

definition controller_enqueue :: "byte list \<Rightarrow> controller \<Rightarrow> js_error + controller" where
  "controller_enqueue chunk c =
     (if can_close_or_enqueue c then Inr (c\<lparr>queue := queue c @ [chunk]\<rparr>)
      else Inl (TypeError ''Invalid state: Controller is already closed''))"

definition controller_error :: "js_error \<Rightarrow> controller \<Rightarrow> controller" where
  "controller_error e c =
     (if state c = Readable then c\<lparr>queue := [], state := Errored e\<rparr> else c)"

definition controller_close :: "controller \<Rightarrow> js_error + controller" where
  "controller_close c =
     (if can_close_or_enqueue c
      then Inr (c\<lparr>closeRequested := True,
                  state := (if queue c = [] then Closed else Readable)\<rparr>)
      else Inl (TypeError ''Invalid state: Controller is already closed''))"

text \<open>
  One \<^verbatim>\<open>read()\<close> of the consumer that finds a chunk in the queue. A read on an empty
  queue waits for the next chunk, which is the same as reading right after that chunk is
  enqueued, so it is not a step of its own.
\<close>

definition reader_read :: "controller \<Rightarrow> controller" where
  "reader_read c =
     (if state c = Readable then
        (case queue c of
           [] \<Rightarrow> c
         | chunk # rest \<Rightarrow>
             c\<lparr>queue := rest, delivered := delivered c @ [chunk],
               state := (if closeRequested c \<and> rest = [] then Closed else Readable)\<rparr>)
      else c)"

definition reader_reads :: "nat \<Rightarrow> controller \<Rightarrow> controller" where
  "reader_reads n c = (reader_read ^^ n) c"

text \<open>
  The \<^verbatim>\<open>for await\<close> loop over the events. Between two steps of the handler the consumer
  reads as many chunks as it likes: \<open>pace i\<close> is the number of reads it performs after the
  \<open>i\<close>-th \<^verbatim>\<open>enqueue\<close>. The loop returns the error thrown inside it, if any, the number of
  chunks enqueued, and the controller.
\<close>

fun for_await ::
  "(string \<Rightarrow> byte list) \<Rightarrow> (nat \<Rightarrow> nat) \<Rightarrow> nat \<Rightarrow> stream_event list \<Rightarrow> controller \<Rightarrow>
   js_error option \<times> nat \<times> controller" where
  "for_await encode pace i [] c = (None, i, c)"
| "for_await encode pace i (content_block_delta (Some (text_delta t)) # rest) c =
     (case controller_enqueue (encode t) c of
        Inl e \<Rightarrow> (Some e, i, c)
      | Inr c' \<Rightarrow> for_await encode pace (i + 1) rest (reader_reads (pace i) c'))"
| "for_await encode pace i (_ # rest) c = for_await encode pace i rest c"

definition SOURCE_MARKER :: string where
  "SOURCE_MARKER = ''__SOURCES__''"

definition newline :: char where
  "newline = CHR 0x0A"

text \<open>
  The \<^verbatim>\<open>start\<close> function: the \<^verbatim>\<open>try\<close> block (the loop, then the chunk with the
  marker and the JSON text), the \<^verbatim>\<open>catch\<close> block and the \<^verbatim>\<open>finally\<close> block. It
  returns the error with which its promise rejects, if any, and the controller.
\<close>

definition start ::
  "(string \<Rightarrow> byte list) \<Rightarrow> (nat \<Rightarrow> nat) \<Rightarrow> claude_stream \<Rightarrow> string \<Rightarrow> controller \<Rightarrow>
   js_error option \<times> controller" where
  "start encode pace claudeStream sources_json c =
     (let (thrown, i, c1) = for_await encode pace 0 (events claudeStream) c;
          (caught, c2) =
            (case thrown of
               Some e \<Rightarrow> (Some e, c1)
             | None \<Rightarrow>
                 (case failure claudeStream of
                    Some e \<Rightarrow> (Some e, c1)
                  | None \<Rightarrow>
                      (case controller_enqueue
                              (encode (newline # SOURCE_MARKER @ sources_json)) c1 of
                         Inl e \<Rightarrow> (Some e, c1)
                       | Inr c' \<Rightarrow> (None, reader_reads (pace i) c'))));
          c3 = (case caught of
                  Some streamError \<Rightarrow> controller_error streamError c2
                | None \<Rightarrow> c2)
      in case controller_close c3 of
           Inl e \<Rightarrow> (Some e, c3)
         | Inr c4 \<Rightarrow> (None, c4))"

text \<open>
  \<^verbatim>\<open>new ReadableStream({start})\<close>: when the promise of \<^verbatim>\<open>start\<close> rejects, the stream
  is errored with the reason of the rejection.
\<close>

definition ReadableStream ::
  "(string \<Rightarrow> byte list) \<Rightarrow> (nat \<Rightarrow> nat) \<Rightarrow> claude_stream \<Rightarrow> string \<Rightarrow> controller" where
  "ReadableStream encode pace claudeStream sources_json =
     (case start encode pace claudeStream sources_json new_controller of
        (None, c) \<Rightarrow> c
      | (Some r, c) \<Rightarrow> controller_error r c)"

subsection \<open>The handler\<close>

text \<open>
  An entry of \<^verbatim>\<open>sourcesPayload\<close>: \<^verbatim>\<open>content\<close>, \<^verbatim>\<open>metadata\<close> and \<^verbatim>\<open>similarity\<close>,
  the last one replaced by 0 when missing.
\<close>

datatype Source = Source string "metadata option" real

definition sourcesPayload :: "RetrievedDocument list \<Rightarrow> Source list" where
  "sourcesPayload matches =
     map (\<lambda>m. Source (content m) (metadata m) (case similarity m of None \<Rightarrow> 0 | Some s \<Rightarrow> s))
       matches"

text \<open>
  \<^verbatim>\<open>Array.prototype.join\<close> and the prompt built from the question and the matches.
\<close>

fun join :: "string \<Rightarrow> string list \<Rightarrow> string" where
  "join sep [] = []"
| "join sep [x] = x"
| "join sep (x # y # ys) = x @ sep @ join sep (y # ys)"

definition contextPrompt :: "string \<Rightarrow> RetrievedDocument list \<Rightarrow> string" where
  "contextPrompt question matches =
     ''Context from documents:'' @ [newline, newline] @
     join [newline] (map (\<lambda>doc. content doc @ [newline] @ ''---'') matches) @
     [newline] @ ''Question: '' @ question @ [newline, newline] @
     ''Answer based ONLY on the context above. Be specific and cite which information came from which part of the context.''"

text \<open>
  What the handler is given by its surroundings: whether \<^verbatim>\<open>ANTHROPIC_API_KEY\<close> is set, the
  embedding service, the \<^verbatim>\<open>match_documents\<close> procedure of the table (an error message,
  or the data, which may be null), the generation stream opened for a prompt,
  \<^verbatim>\<open>TextEncoder.encode\<close>, \<^verbatim>\<open>JSON.stringify\<close> on the payload, and the pace of the
  consumer of the response body.
\<close>

record collaborators =
  api_key :: bool
  embeddings_create :: "string \<Rightarrow> nat \<Rightarrow> create_outcome"
  match_documents :: "EmbeddingVector \<Rightarrow> real \<Rightarrow> nat \<Rightarrow> string + RetrievedDocument list option"
  messages_stream :: "string \<Rightarrow> claude_stream"
  encode :: "string \<Rightarrow> byte list"
  stringify :: "Source list \<Rightarrow> string"
  pace :: "nat \<Rightarrow> nat"

text \<open>
  The response is a JSON error with its status, or the stream; the stream is given in the
  state in which \<^verbatim>\<open>start\<close> leaves it. Beside the response the handler's result records
  the prompts sent to the generative model.
\<close>

datatype rag_response = RagError nat string | RagStream controller

record rag_result =
  response :: rag_response
  generation_requests :: "string list"

text \<open>
  The source filter: \<^verbatim>\<open>if (document_source)\<close> holds for a string that is not empty.
\<close>

definition narrow :: "string option \<Rightarrow> RetrievedDocument list \<Rightarrow> RetrievedDocument list" where
  "narrow document_source matches =
     (case document_source of
        None \<Rightarrow> matches
      | Some wanted \<Rightarrow>
          if wanted = [] then matches
          else filter (\<lambda>doc. source_of doc = Some wanted) matches)"

definition refuse :: "nat \<Rightarrow> string \<Rightarrow> rag_result" where
  "refuse status msg = \<lparr>response = RagError status msg, generation_requests = []\<rparr>"

definition POST_rag :: "collaborators \<Rightarrow> string option \<Rightarrow> string option \<Rightarrow> rag_result" where
  "POST_rag env body_question document_source =
     (case body_question of
        None \<Rightarrow> refuse 400 ''Missing or invalid question''
      | Some question \<Rightarrow>
          if question = [] then refuse 400 ''Missing or invalid question''
          else if \<not> api_key env then refuse 500 ''ANTHROPIC_API_KEY is not set''
          else
            (case returned (generateEmbedding (embeddings_create env) question) of
               Inl e \<Rightarrow> refuse 500 (message e)
             | Inr questionEmbedding \<Rightarrow>
                 (case match_documents env questionEmbedding (7 / 10) 3 of
                    Inl msg \<Rightarrow> refuse 500 (''Supabase match_documents failed: '' @ msg)
                  | Inr data \<Rightarrow>
                      (let matches = narrow document_source
                                       (case data of None \<Rightarrow> [] | Some docs \<Rightarrow> docs)
                       in if matches = [] then
                            refuse 404 ''No relevant chunks found. Try rephrasing or uploading.''
                          else
                            (let prompt = contextPrompt question matches;
                                 claudeStream = messages_stream env prompt
                             in \<lparr>response = RagStream
                                    (ReadableStream (encode env) (pace env) claudeStream
                                       (stringify env (sourcesPayload matches))),
                                  generation_requests = [prompt]\<rparr>)))))"

section \<open>Notions used to state the properties\<close>

text \<open>
  \<open>number_of_chunks L d\<close> is the number of multiples of the step \<open>d\<close> below the length \<open>L\<close>,
  and \<open>window\<close> is the chunk that starts at the \<open>k\<close>-th multiple of the step.
\<close>

definition number_of_chunks :: "nat \<Rightarrow> nat \<Rightarrow> nat" where
  "number_of_chunks L d = (L + d - 1) div d"

definition window :: "'a list \<Rightarrow> int \<Rightarrow> int \<Rightarrow> nat \<Rightarrow> 'a Chunk" where
  "window txt chunkSize overlap k =
     \<lparr>text = take (nat chunkSize) (drop (k * nat (chunkSize - overlap)) txt), index = k\<rparr>"

text \<open>
  The reconstruction of the text from its chunks, in two readings: the first
  \<open>step\<close> characters of every chunk followed by what remains of the final chunk after its
  first \<open>step\<close> characters; and the first \<open>step\<close> characters of every chunk but the final
  one, followed by the whole final chunk.
\<close>

definition reconstruct :: "nat \<Rightarrow> 'a Chunk list \<Rightarrow> 'a list" where
  "reconstruct step chunks =
     concat (map (\<lambda>c. take step (text c)) chunks) @
     (if chunks = [] then [] else drop step (text (last chunks)))"

definition reconstruct_heads :: "nat \<Rightarrow> 'a Chunk list \<Rightarrow> 'a list" where
  "reconstruct_heads step chunks =
     (if chunks = [] then []
      else concat (map (\<lambda>c. take step (text c)) (butlast chunks)) @ text (last chunks))"

text \<open>
  The rows of a given source, in table order; an association list whose keys are distinct
  and whose summaries carry their key; a source that the listing can show.
\<close>

definition rows_of :: "string \<Rightarrow> StoredDocument list \<Rightarrow> StoredDocument list" where
  "rows_of src rows = filter (\<lambda>r. source_of r = Some src) rows"

definition well_keyed :: "(string \<times> DocumentSummary) list \<Rightarrow> bool" where
  "well_keyed summaries \<longleftrightarrow>
     distinct (map fst summaries) \<and>
     (\<forall>k d. map_of summaries k = Some d \<longrightarrow> DocumentSummary.source d = k)"

definition listable :: "string \<Rightarrow> bool" where
  "listable src \<longleftrightarrow> src \<noteq> [] \<and> src \<notin> set object_prototype_keys"

text \<open>
  The text increments of a sequence of events, in order; the consumer reading everything
  that is left in the queue; and the two phases of an output stream that has been handed
  the chunks \<open>chunks\<close>: before and after \<^verbatim>\<open>close\<close>.
\<close>

fun text_increments :: "stream_event list \<Rightarrow> string list" where
  "text_increments [] = []"
| "text_increments (content_block_delta (Some (text_delta t)) # rest) = t # text_increments rest"
| "text_increments (_ # rest) = text_increments rest"

definition drain :: "controller \<Rightarrow> controller" where
  "drain c = reader_reads (length (queue c)) c"

definition open_with :: "byte list list \<Rightarrow> controller \<Rightarrow> bool" where
  "open_with chunks c \<longleftrightarrow>
     state c = Readable \<and> \<not> closeRequested c \<and> delivered c @ queue c = chunks"

definition closing_with :: "byte list list \<Rightarrow> controller \<Rightarrow> bool" where
  "closing_with chunks c \<longleftrightarrow>
     closeRequested c \<and> delivered c @ queue c = chunks \<and>
     state c = (if queue c = [] then Closed else Readable)"

section \<open>Example inputs\<close>

text \<open>
  Embedding services (one that fails twice and then answers, one that never answers with a
  vector, one that answers every request at once), stored rows and matches with a given
  source, an encoder for ASCII text, a generation stream of two increments among other
  events, three consumers (one that reads nothing while the answer is generated, one that
  reads after every chunk, one that reads the first chunk only), and the surroundings of an
  answering request built from them.
\<close>

definition fails_twice :: "string \<Rightarrow> nat \<Rightarrow> create_outcome" where
  "fails_twice t n = (if n < 2 then Rejects (Error ''socket hang up'') else Resolves (Some [1, 2]))"

definition never_embeds :: "string \<Rightarrow> nat \<Rightarrow> create_outcome" where
  "never_embeds t n = (if n < 2 then Resolves None else Rejects (Error ''rate limit''))"

definition always_embeds :: "nat \<Rightarrow> string \<Rightarrow> nat \<Rightarrow> create_outcome" where
  "always_embeds k t n = Resolves (Some [])"

definition stored :: "string \<Rightarrow> timestamp \<Rightarrow> StoredDocument" where
  "stored src t = \<lparr>content = [], embedding = [],
     metadata = Some \<lparr>metadata.source = src, chunk_index = 0, total_chunks = 1\<rparr>,
     StoredDocument.created_at = t\<rparr>"

definition ascii :: "string \<Rightarrow> byte list" where
  "ascii s = map of_char s"

definition doc :: "string \<Rightarrow> string \<Rightarrow> RetrievedDocument" where
  "doc src body = \<lparr>content = body, embedding = [],
     metadata = Some \<lparr>metadata.source = src, chunk_index = 0, total_chunks = 1\<rparr>,
     similarity = Some (9 / 10)\<rparr>"

definition demo :: "claude_stream \<Rightarrow> (nat \<Rightarrow> nat) \<Rightarrow> collaborators" where
  "demo s p = \<lparr>api_key = True, embeddings_create = (\<lambda>t n. Resolves (Some [])),
     match_documents = (\<lambda>v th k. Inr (Some [doc ''a.txt'' ''alpha''])),
     messages_stream = (\<lambda>prompt. s), encode = ascii,
     stringify = (\<lambda>ps. ''[...]''), pace = p\<rparr>"

definition greeting :: "js_error option \<Rightarrow> claude_stream" where
  "greeting ending = \<lparr>events = [other_event, content_block_delta (Some (text_delta ''Hi'')),
                               content_block_delta None,
                               content_block_delta (Some (text_delta ''!''))],
                    failure = ending\<rparr>"

definition lazy_consumer :: "nat \<Rightarrow> nat" where
  "lazy_consumer i = 0"

definition eager_consumer :: "nat \<Rightarrow> nat" where
  "eager_consumer i = Suc 0"

definition one_read_consumer :: "nat \<Rightarrow> nat" where
  "one_read_consumer i = (if i = 0 then Suc 0 else 0)"

text \<open>
  A second answering request: two matches, the second without a similarity, and a
  \<^verbatim>\<open>stringify\<close> that shows the content, the source and whether the similarity is 0.
\<close>

definition render_sources :: "Source list \<Rightarrow> string" where
  "render_sources ps =
     concat (map (\<lambda>p. case p of Source c m s \<Rightarrow>
                   ''{'' @ c @ '','' @
                   (case m of None \<Rightarrow> ''null'' | Some md \<Rightarrow> metadata.source md) @ '','' @
                   (if s = 0 then ''0'' else ''+'') @ ''}'') ps)"

definition unscored :: "string \<Rightarrow> string \<Rightarrow> RetrievedDocument" where
  "unscored src body = \<lparr>content = body, embedding = [],
     metadata = Some \<lparr>metadata.source = src, chunk_index = 0, total_chunks = 1\<rparr>,
     similarity = None\<rparr>"

definition cited :: collaborators where
  "cited = \<lparr>api_key = True, embeddings_create = (\<lambda>t n. Resolves (Some [])),
     match_documents = (\<lambda>v th k. Inr (Some [doc ''a.txt'' ''alpha'', unscored ''b.txt'' ''beta''])),
     messages_stream = (\<lambda>prompt. greeting None), encode = ascii,
     stringify = render_sources, pace = lazy_consumer\<rparr>"

section \<open>Properties of the segmenter\<close>

subsection \<open>The loop in closed form\<close>

lemma number_of_chunks_less_iff:
  assumes "0 < d"
  shows "k < number_of_chunks L d \<longleftrightarrow> k * d < L"
proof -
  have "k < (L + d - 1) div d \<longleftrightarrow> Suc k \<le> (L + d - 1) div d" by auto
  also have "\<dots> \<longleftrightarrow> Suc k * d \<le> L + d - 1"
    using assms by (simp add: less_eq_div_iff_mult_less_eq)
  also have "\<dots> \<longleftrightarrow> k * d < L" using assms by auto
  finally show ?thesis by (simp add: number_of_chunks_def)
qed

lemma slice_window:
  assumes "0 < c"
  shows "slice txt (int p) (int p + c) = take (nat c) (drop p txt)"
proof (cases "p \<le> length txt")
  case True
  then show ?thesis using assms
    by (auto simp: slice_def Let_def min_def nat_diff_distrib' nat_add_distrib)
next
  case False
  then show ?thesis using assms by (auto simp: slice_def Let_def min_def)
qed

lemma chunkText_loop_closed:
  assumes "0 \<le> overlap" "overlap < chunkSize"
  shows "k \<le> number_of_chunks (length txt) (nat (chunkSize - overlap)) \<Longrightarrow>
         chunkText_loop txt chunkSize overlap (int (k * nat (chunkSize - overlap))) k acc =
           Some (acc @ map (window txt chunkSize overlap)
                        [k..<number_of_chunks (length txt) (nat (chunkSize - overlap))])"
proof (induction "number_of_chunks (length txt) (nat (chunkSize - overlap)) - k" arbitrary: k acc)
  case 0
  let ?d = "nat (chunkSize - overlap)"
  have d: "0 < ?d" using assms by simp
  from 0 have "\<not> k < number_of_chunks (length txt) ?d" by simp
  then have "\<not> k * ?d < length txt" using number_of_chunks_less_iff [OF d] by blast
  then have "\<not> int (k * ?d) < int (length txt)" by linarith
  moreover have "[k..<number_of_chunks (length txt) ?d] = []" using 0 by simp
  ultimately show ?case
    by (subst chunkText_loop.simps) simp
next
  case (Suc m)
  let ?d = "nat (chunkSize - overlap)"
  let ?n = "number_of_chunks (length txt) ?d"
  have d: "0 < ?d" using assms by simp
  have c: "0 < chunkSize" using assms by simp
  from Suc.hyps(2) have kn: "k < ?n" by simp
  then have "k * ?d < length txt" using number_of_chunks_less_iff [OF d] by blast
  then have cond: "int (k * ?d) < int (length txt)" by linarith
  have pos: "int (k * ?d) + (chunkSize - overlap) = int (Suc k * ?d)"
    using assms by simp
  have m: "m = ?n - Suc k" using Suc.hyps(2) by simp
  have le: "Suc k \<le> ?n" using kn by simp
  have ih: "chunkText_loop txt chunkSize overlap (int (Suc k * ?d)) (Suc k)
              (acc @ [window txt chunkSize overlap k]) =
            Some ((acc @ [window txt chunkSize overlap k]) @
                  map (window txt chunkSize overlap) [Suc k..<?n])"
    by (rule Suc.hyps(1) [OF m le])
  have w: "\<lparr>text = slice txt (int (k * ?d)) (int (k * ?d) + chunkSize), index = k\<rparr> =
           window txt chunkSize overlap k"
    by (simp only: window_def slice_window [OF c])
  have upt: "[k..<?n] = k # [Suc k..<?n]" using kn by (simp add: upt_conv_Cons)
  have step: "chunkText_loop txt chunkSize overlap (int (k * ?d)) k acc =
              chunkText_loop txt chunkSize overlap (int (Suc k * ?d)) (Suc k)
                (acc @ [window txt chunkSize overlap k])"
    by (subst chunkText_loop.simps) (simp only: cond if_True pos w Suc_eq_plus1)
  show ?case
    unfolding step ih upt by simp
qed

lemma chunkText_closed:
  assumes "0 < chunkSize" "0 \<le> overlap" "overlap < chunkSize"
  shows "chunkText txt chunkSize overlap =
           Some (Inr (map (window txt chunkSize overlap)
                        [0..<number_of_chunks (length txt) (nat (chunkSize - overlap))]))"
  using assms chunkText_loop_closed [of overlap chunkSize 0 "txt" "[]"]
  by (simp add: chunkText_def)

lemma text_window:
  "text (window txt chunkSize overlap k) =
     take (nat chunkSize) (drop (k * nat (chunkSize - overlap)) txt)"
  by (simp add: window_def)

lemma number_of_chunks_covers:
  assumes "0 < d"
  shows "L \<le> number_of_chunks L d * d"
  using number_of_chunks_less_iff [OF assms, of "number_of_chunks L d" L] by simp

lemma number_of_chunks_last_start:
  assumes "0 < d" "0 < L"
  shows "(number_of_chunks L d - 1) * d < L" "0 < number_of_chunks L d"
proof -
  show pos: "0 < number_of_chunks L d"
    using number_of_chunks_less_iff [OF assms(1), of 0 L] assms(2) by simp
  then have "number_of_chunks L d - 1 < number_of_chunks L d" by simp
  then show "(number_of_chunks L d - 1) * d < L"
    using number_of_chunks_less_iff [OF assms(1)] by blast
qed

lemma number_of_chunks_inexact:
  assumes "0 < d" "L mod d \<noteq> 0"
  shows "number_of_chunks L d = Suc (L div d)"
proof -
  have split: "L = L div d * d + L mod d" by simp
  have "L div d * d < L" using split assms(2) by linarith
  then have a: "L div d < number_of_chunks L d"
    using number_of_chunks_less_iff [OF assms(1)] by blast
  have "L mod d < d" using assms(1) by simp
  then have "L < L div d * d + d" using split by linarith
  then have "\<not> Suc (L div d) * d < L" by simp
  then have b: "\<not> Suc (L div d) < number_of_chunks L d"
    using number_of_chunks_less_iff [OF assms(1)] by blast
  from a b show ?thesis by linarith
qed

lemma number_of_chunks_ceiling:
  assumes "0 < d"
  shows "int (number_of_chunks L d) = \<lceil>real L / real d\<rceil>"
proof (cases "L = 0")
  case True
  have "\<not> 0 < number_of_chunks L d"
    using number_of_chunks_less_iff [OF assms, of 0 L] True by simp
  then show ?thesis using True by simp
next
  case False
  let ?n = "number_of_chunks L d"
  have dr: "0 < real d" using assms by simp
  have upper: "L \<le> ?n * d" by (rule number_of_chunks_covers [OF assms])
  have lower: "(?n - 1) * d < L"
    using number_of_chunks_last_start(1) [OF assms] False by simp
  have npos: "0 < ?n" using number_of_chunks_last_start(2) [OF assms] False by simp
  have "real L \<le> real (?n * d)" using upper by (simp only: of_nat_le_iff)
  then have "real L \<le> real ?n * real d" by simp
  then have u: "real L / real d \<le> real ?n"
    using dr by (simp add: pos_divide_le_eq)
  have "real ((?n - 1) * d) < real L" using lower by (simp only: of_nat_less_iff)
  then have "real (?n - 1) * real d < real L" by simp
  then have "real (?n - 1) < real L / real d"
    using dr by (simp add: pos_less_divide_eq)
  moreover have "real (?n - 1) = real ?n - 1" using npos by simp
  ultimately have l: "real ?n - 1 < real L / real d" by simp
  have "\<lceil>real L / real d\<rceil> = int ?n"
    by (rule ceiling_unique) (use l u in simp_all)
  then show ?thesis by simp
qed

subsection \<open>Lossless coverage\<close>

lemma concat_heads:
  "concat (map (\<lambda>k. take d (drop (k * d) xs)) [0..<n]) = take (n * d) xs"
proof (induction n)
  case 0
  show ?case by simp
next
  case (Suc n)
  have "take (n * d) xs @ take d (drop (n * d) xs) = take (n * d + d) xs"
    by (simp add: take_add)
  with Suc show ?case by (simp add: add.commute)
qed

lemma reconstruct_windows:
  assumes "0 < chunkSize" "0 \<le> overlap" "overlap < chunkSize"
  shows "reconstruct (nat (chunkSize - overlap))
           (map (window txt chunkSize overlap)
              [0..<number_of_chunks (length txt) (nat (chunkSize - overlap))]) = txt"
proof -
  let ?d = "nat (chunkSize - overlap)"
  let ?n = "number_of_chunks (length txt) ?d"
  have d: "0 < ?d" and dc: "?d \<le> nat chunkSize" using assms by auto
  have head: "take ?d (text (window txt chunkSize overlap k)) = take ?d (drop (k * ?d) txt)" for k
    using dc by (simp add: text_window min_absorb1)
  have heads: "concat (map (\<lambda>c. take ?d (text c)) (map (window txt chunkSize overlap) [0..<?n])) = txt"
    using number_of_chunks_covers [OF d, of "length txt"]
    by (simp add: comp_def head concat_heads)
  show ?thesis
  proof (cases "?n")
    case 0
    then show ?thesis using heads by (simp add: reconstruct_def)
  next
    case (Suc m)
    have "length txt \<le> Suc m * ?d" using number_of_chunks_covers [OF d, of "length txt"] Suc by simp
    then have short: "length (drop (m * ?d) txt) \<le> ?d" by simp
    have lst: "last (map (window txt chunkSize overlap) [0..<Suc m]) = window txt chunkSize overlap m"
      by simp
    have "drop ?d (text (window txt chunkSize overlap m)) = []"
      using short by (simp add: text_window)
    then show ?thesis
      using heads
      unfolding reconstruct_def Suc lst by simp
  qed
qed

lemma reconstruct_heads_windows:
  assumes "0 < chunkSize" "0 \<le> overlap" "overlap < chunkSize"
  shows "reconstruct_heads (nat (chunkSize - overlap))
           (map (window txt chunkSize overlap)
              [0..<number_of_chunks (length txt) (nat (chunkSize - overlap))]) = txt"
proof -
  let ?d = "nat (chunkSize - overlap)"
  let ?n = "number_of_chunks (length txt) ?d"
  have d: "0 < ?d" and dc: "?d \<le> nat chunkSize" using assms by auto
  have head: "take ?d (text (window txt chunkSize overlap k)) = take ?d (drop (k * ?d) txt)" for k
    using dc by (simp add: text_window min_absorb1)
  show ?thesis
  proof (cases "?n")
    case 0
    then have "\<not> 0 * ?d < length txt" using number_of_chunks_less_iff [OF d, of 0 "length txt"] by simp
    then show ?thesis using 0 by (simp add: reconstruct_heads_def)
  next
    case (Suc m)
    have "length txt \<le> Suc m * ?d" using number_of_chunks_covers [OF d, of "length txt"] Suc by simp
    then have "length (drop (m * ?d) txt) \<le> nat chunkSize" using dc by simp
    then have lasttext: "text (window txt chunkSize overlap m) = drop (m * ?d) txt"
      by (simp add: text_window)
    have front: "concat (map (\<lambda>c. take ?d (text c)) (map (window txt chunkSize overlap) [0..<m])) =
                 take (m * ?d) txt"
      by (simp add: comp_def head concat_heads)
    have bl: "butlast (map (window txt chunkSize overlap) [0..<Suc m]) =
              map (window txt chunkSize overlap) [0..<m]"
      by (simp add: butlast_append)
    have lst: "last (map (window txt chunkSize overlap) [0..<Suc m]) = window txt chunkSize overlap m"
      by simp
    have ne: "map (window txt chunkSize overlap) [0..<Suc m] \<noteq> []" by simp
    show ?thesis
      unfolding reconstruct_heads_def Suc bl lst front lasttext using ne by simp
  qed
qed

text \<open>
  Claim C4. For every text and every pair with \<open>0 < chunkSize\<close> and
  \<open>0 \<le> overlap < chunkSize\<close>, \<open>chunkText\<close> returns a chunk sequence, and concatenating the
  first \<open>chunkSize - overlap\<close> characters of each chunk in index order, plus the remaining
  characters of the final chunk, gives back the text. The same holds when the final chunk
  is taken whole after the heads of the chunks before it.
\<close>

theorem chunkText_lossless:
  assumes "0 < chunkSize" "0 \<le> overlap" "overlap < chunkSize"
  shows "\<exists>chunks. chunkText txt chunkSize overlap = Some (Inr chunks) \<and>
           reconstruct (nat (chunkSize - overlap)) chunks = txt \<and>
           reconstruct_heads (nat (chunkSize - overlap)) chunks = txt"
  using chunkText_closed [OF assms, of "txt"] reconstruct_windows [OF assms, of "txt"]
    reconstruct_heads_windows [OF assms, of "txt"]
  by simp

theorem chunkText_lossless_witness:
  "\<exists>chunks. chunkText ''The quick brown fox. The quick brown fox.'' 20 5 = Some (Inr chunks) \<and>
     reconstruct 15 chunks = ''The quick brown fox. The quick brown fox.'' \<and>
     reconstruct_heads 15 chunks = ''The quick brown fox. The quick brown fox.''"
  using chunkText_lossless [of 20 5 "''The quick brown fox. The quick brown fox.''"] by simp

subsection \<open>Rejected parameters\<close>

text \<open>
  On integers the three checks are complete: every pair that violates \<open>0 < chunkSize\<close> and
  \<open>0 \<le> overlap < chunkSize\<close> makes \<open>chunkText\<close> throw the error of the first check that
  fails, with no chunk sequence; in particular at \<open>(0, overlap)\<close>, \<open>(c, c)\<close> and
  \<open>(c, c + 1)\<close>.
\<close>

lemma chunkText_invalid_parameter_integers:
  "(\<not> (0 < chunkSize \<and> 0 \<le> overlap \<and> overlap < chunkSize) \<longrightarrow>
      chunkText txt chunkSize overlap =
        Some (Inl (Error (if chunkSize \<le> 0 then ''chunkSize must be positive''
                          else if overlap < 0 then ''overlap cannot be negative''
                          else ''overlap must be smaller than chunkSize'')))) \<and>
   chunkText txt 0 overlap = Some (Inl (Error ''chunkSize must be positive'')) \<and>
   (0 < c \<longrightarrow> chunkText txt c c = Some (Inl (Error ''overlap must be smaller than chunkSize''))) \<and>
   (0 < c \<longrightarrow> chunkText txt c (c + 1) = Some (Inl (Error ''overlap must be smaller than chunkSize''))) \<and>
   (c \<le> 0 \<longrightarrow> chunkText txt c c = Some (Inl (Error ''chunkSize must be positive'')) \<and>
              chunkText txt c (c + 1) = Some (Inl (Error ''chunkSize must be positive'')))"
  by (simp add: chunkText_def)

lemma chunkText_invalid_parameter_integers_example:
  "chunkText ''abc'' 0 (-1) = Some (Inl (Error ''chunkSize must be positive'')) \<and>
   chunkText ''abc'' 4 4 = Some (Inl (Error ''overlap must be smaller than chunkSize'')) \<and>
   chunkText ''abc'' 4 5 = Some (Inl (Error ''overlap must be smaller than chunkSize'')) \<and>
   chunkText ''abc'' 4 (-1) = Some (Inl (Error ''overlap cannot be negative''))"
  using chunkText_invalid_parameter_integers [of 4 "-1" "''abc''" 4]
  by simp

text \<open>
  The function on \<^verbatim>\<open>number\<close> is the function on integers when both parameters are
  integers.
\<close>

lemma chunkText_number_loop_integers:
  assumes "0 \<le> overlap" "overlap < chunkSize"
  shows "k \<le> number_of_chunks (length txt) (nat (chunkSize - overlap)) \<Longrightarrow>
         chunkText_number_loop txt (Number chunkSize) (Number overlap)
           (Number (int (k * nat (chunkSize - overlap)))) k acc =
         chunkText_loop txt chunkSize overlap (int (k * nat (chunkSize - overlap))) k acc"
proof (induction "number_of_chunks (length txt) (nat (chunkSize - overlap)) - k" arbitrary: k acc)
  case 0
  let ?d = "nat (chunkSize - overlap)"
  have d: "0 < ?d" using assms by simp
  from 0 have "\<not> k < number_of_chunks (length txt) ?d" by simp
  then have "\<not> k * ?d < length txt" using number_of_chunks_less_iff [OF d] by blast
  then have stop: "\<not> int (k * ?d) < int (length txt)" by linarith
  have a: "chunkText_number_loop txt (Number chunkSize) (Number overlap)
             (Number (int (k * ?d))) k acc = Some acc"
    using stop by (subst chunkText_number_loop.simps) simp
  have b: "chunkText_loop txt chunkSize overlap (int (k * ?d)) k acc = Some acc"
    using stop by (subst chunkText_loop.simps) simp
  show ?case unfolding a b ..
next
  case (Suc m)
  let ?d = "nat (chunkSize - overlap)"
  let ?n = "number_of_chunks (length txt) ?d"
  let ?c = "\<lparr>text = slice txt (int (k * ?d)) (int (k * ?d) + chunkSize), index = k\<rparr>"
  have d: "0 < ?d" using assms by simp
  from Suc.hyps(2) have kn: "k < ?n" by simp
  then have "k * ?d < length txt" using number_of_chunks_less_iff [OF d] by blast
  then have cond: "int (k * ?d) < int (length txt)" by linarith
  have pos: "int (k * ?d) + (chunkSize - overlap) = int (Suc k * ?d)"
    using assms by simp
  have m: "m = ?n - Suc k" using Suc.hyps(2) by simp
  have le: "Suc k \<le> ?n" using kn by simp
  have ih: "chunkText_number_loop txt (Number chunkSize) (Number overlap)
              (Number (int (Suc k * ?d))) (Suc k) (acc @ [?c]) =
            chunkText_loop txt chunkSize overlap (int (Suc k * ?d)) (Suc k) (acc @ [?c])"
    by (rule Suc.hyps(1) [OF m le])
  have a: "chunkText_number_loop txt (Number chunkSize) (Number overlap)
             (Number (int (k * ?d))) k acc =
           chunkText_number_loop txt (Number chunkSize) (Number overlap)
             (Number (int (Suc k * ?d))) (Suc k) (acc @ [?c])"
    by (subst chunkText_number_loop.simps)
       (simp only: js_less.simps js_plus.simps js_minus.simps ToIntegerOrInfinity.simps
          cond if_True pos Suc_eq_plus1)
  have b: "chunkText_loop txt chunkSize overlap (int (k * ?d)) k acc =
           chunkText_loop txt chunkSize overlap (int (Suc k * ?d)) (Suc k) (acc @ [?c])"
    by (subst chunkText_loop.simps) (simp only: cond if_True pos Suc_eq_plus1)
  show ?case unfolding a b ih ..
qed

lemma chunkText_number_integers:
  "chunkText_number txt (Number chunkSize) (Number overlap) = chunkText txt chunkSize overlap"
proof (cases "0 < chunkSize \<and> 0 \<le> overlap \<and> overlap < chunkSize")
  case True
  then have "chunkText_number_loop txt (Number chunkSize) (Number overlap) (Number 0) 0 [] =
             chunkText_loop txt chunkSize overlap 0 0 []"
    using chunkText_number_loop_integers [of overlap chunkSize 0 "txt" "[]"] by simp
  then show ?thesis using True by (simp add: chunkText_number_def chunkText_def)
next
  case False
  then show ?thesis by (auto simp: chunkText_number_def chunkText_def)
qed


subsection \<open>The chunks\<close>

text \<open>
  A text of twenty characters with \<open>chunkSize = 20\<close> and \<open>overlap = 5\<close> is no longer than
  \<open>chunkSize\<close>, and \<open>chunkText\<close> returns two chunks: the start position after the first
  chunk is 15, which is still below the length.
\<close>

theorem chunkText_single_chunk_counterexample:
  "0 < length ''aaaaaaaaaaaaaaaaaaaa'' \<and> int (length ''aaaaaaaaaaaaaaaaaaaa'') \<le> 20 \<and>
   chunkText ''aaaaaaaaaaaaaaaaaaaa'' 20 5 =
     Some (Inr [\<lparr>text = ''aaaaaaaaaaaaaaaaaaaa'', index = 0\<rparr>, \<lparr>text = ''aaaaa'', index = 1\<rparr>]) \<and>
   chunkText ''aaaaaaaaaaaaaaaaaaaa'' 20 5 \<noteq>
     Some (Inr [\<lparr>text = ''aaaaaaaaaaaaaaaaaaaa'', index = 0\<rparr>])"
  by (simp add: chunkText_def chunkText_loop.simps slice_def)

text \<open>
  Claim C5, amended. For every text and valid pair, chunk \<open>k\<close> is the substring that starts
  at \<open>k * (chunkSize - overlap)\<close> and has length \<open>chunkSize\<close> (shorter when fewer characters
  remain), with index \<open>k\<close>; there is a chunk \<open>k\<close> exactly when its start position is below
  the length of the text; the empty text gives no chunk; a text of length
  \<open>0 < L \<le> chunkSize - overlap\<close> gives exactly one chunk, the whole text; a text of length
  \<open>0 < L \<le> chunkSize\<close> gives a first chunk that is the whole text; and a call without the
  last two arguments is a call with \<open>chunkSize = 500\<close> and \<open>overlap = 50\<close>.
\<close>

theorem chunkText_chunks:
  assumes "0 < chunkSize" "0 \<le> overlap" "overlap < chunkSize"
  shows "\<exists>chunks. chunkText txt chunkSize overlap = Some (Inr chunks) \<and>
     (\<forall>k < length chunks.
        chunks ! k = \<lparr>text = take (nat chunkSize) (drop (k * nat (chunkSize - overlap)) txt),
                       index = k\<rparr>) \<and>
     (\<forall>k. k < length chunks \<longleftrightarrow> int k * (chunkSize - overlap) < int (length txt)) \<and>
     (txt = [] \<longrightarrow> chunks = []) \<and>
     (0 < length txt \<and> int (length txt) \<le> chunkSize - overlap \<longrightarrow>
        chunks = [\<lparr>text = txt, index = 0\<rparr>]) \<and>
     (0 < length txt \<and> int (length txt) \<le> chunkSize \<longrightarrow>
        chunks \<noteq> [] \<and> hd chunks = \<lparr>text = txt, index = 0\<rparr>) \<and>
     chunkText_call txt None None = chunkText txt 500 50"
proof -
  let ?d = "nat (chunkSize - overlap)"
  let ?n = "number_of_chunks (length txt) ?d"
  let ?chunks = "map (window txt chunkSize overlap) [0..<?n]"
  have d: "0 < ?d" using assms by simp
  have iff: "k < ?n \<longleftrightarrow> int k * (chunkSize - overlap) < int (length txt)" for k
  proof -
    have dint: "int ?d = chunkSize - overlap" using assms by simp
    have "(k * ?d < length txt) = (int (k * ?d) < int (length txt))"
      by (simp only: of_nat_less_iff)
    also have "\<dots> = (int k * int ?d < int (length txt))"
      by (simp only: of_nat_mult)
    also have "\<dots> = (int k * (chunkSize - overlap) < int (length txt))"
      by (simp only: dint)
    finally show ?thesis
      using number_of_chunks_less_iff [OF d, of k "length txt"] by (simp only:)
  qed
  have a: "chunkText txt chunkSize overlap = Some (Inr ?chunks)"
    by (rule chunkText_closed [OF assms])
  have b: "\<forall>k < length ?chunks.
        ?chunks ! k = \<lparr>text = take (nat chunkSize) (drop (k * ?d) txt), index = k\<rparr>"
    by (simp add: window_def)
  have c: "\<forall>k. k < length ?chunks \<longleftrightarrow> int k * (chunkSize - overlap) < int (length txt)"
    using iff by simp
  have e: "txt = [] \<longrightarrow> ?chunks = []"
    using iff [of 0] by auto
  have one: "?n = 1" if "0 < length txt" "int (length txt) \<le> chunkSize - overlap"
  proof -
    have "0 < ?n" using iff [of 0] that by simp
    moreover have "\<not> 1 < ?n" using iff [of 1] that by simp
    ultimately show ?thesis by simp
  qed
  have f: "0 < length txt \<and> int (length txt) \<le> chunkSize - overlap \<longrightarrow>
        ?chunks = [\<lparr>text = txt, index = 0\<rparr>]"
  proof (intro impI, elim conjE)
    assume h: "0 < length txt" "int (length txt) \<le> chunkSize - overlap"
    then have "length txt \<le> nat chunkSize" using assms by simp
    then show "?chunks = [\<lparr>text = txt, index = 0\<rparr>]"
      using one [OF h] by (simp add: window_def)
  qed
  have g: "0 < length txt \<and> int (length txt) \<le> chunkSize \<longrightarrow>
        ?chunks \<noteq> [] \<and> hd ?chunks = \<lparr>text = txt, index = 0\<rparr>"
  proof (intro impI, elim conjE)
    assume h: "0 < length txt" "int (length txt) \<le> chunkSize"
    then have pos: "0 < ?n" using iff [of 0] by simp
    then have "[0..<?n] = 0 # [1..<?n]" by (simp add: upt_conv_Cons)
    moreover have "length txt \<le> nat chunkSize" using h by simp
    ultimately show "?chunks \<noteq> [] \<and> hd ?chunks = \<lparr>text = txt, index = 0\<rparr>"
      by (simp add: window_def)
  qed
  have h: "chunkText_call txt None None = chunkText txt 500 50"
    by (simp add: chunkText_call_def)
  from a b c e f g h show ?thesis
    by (intro exI [of _ ?chunks] conjI) assumption+
qed

theorem chunkText_chunks_witness:
  "\<exists>chunks. chunkText ''abcdefghij'' 4 1 = Some (Inr chunks) \<and>
     (\<forall>k < length chunks.
        chunks ! k = \<lparr>text = take 4 (drop (k * 3) ''abcdefghij''), index = k\<rparr>) \<and>
     (\<forall>k. k < length chunks \<longleftrightarrow> int k * 3 < 10) \<and>
     chunkText_call ''abcdefghij'' None None = chunkText ''abcdefghij'' 500 50"
  using chunkText_chunks [of 4 1 "''abcdefghij''"] by simp

subsection \<open>The number of chunks\<close>

lemma last_window_suffix:
  assumes "0 < chunkSize" "0 \<le> overlap" "overlap < chunkSize"
    and "length txt mod nat (chunkSize - overlap) \<noteq> 0"
    and "int (length txt mod nat (chunkSize - overlap)) \<le> overlap"
    and "2 \<le> number_of_chunks (length txt) (nat (chunkSize - overlap))"
  shows "suffix (text (window txt chunkSize overlap
                         (number_of_chunks (length txt) (nat (chunkSize - overlap)) - 1)))
                (text (window txt chunkSize overlap
                         (number_of_chunks (length txt) (nat (chunkSize - overlap)) - 2)))"
proof -
  define d where "d = nat (chunkSize - overlap)"
  define L where "L = length txt"
  define q where "q = L div d"
  define v where "v = nat overlap"
  define c where "c = nat chunkSize"
  have d: "0 < d" using assms(3) by (simp add: d_def)
  have r: "L mod d \<noteq> 0" unfolding d_def L_def by (rule assms(4))
  have ov: "L mod d \<le> v" using assms(5) unfolding d_def L_def v_def by linarith
  have cs: "c = d + v" using assms(1-3) unfolding c_def d_def v_def by linarith
  have n: "number_of_chunks L d = Suc q"
    unfolding q_def by (rule number_of_chunks_inexact [OF d r])
  have "1 \<le> q" using assms(6) n unfolding d_def L_def by simp
  then obtain p where qp: "q = Suc p" by (cases q) auto
  have rem: "L = q * d + L mod d" unfolding q_def by simp
  have qd: "q * d = p * d + d" unfolding qp by simp
  have len_last: "length (drop (q * d) txt) \<le> c"
    using rem ov cs unfolding L_def by simp
  have len_prev: "length (drop (p * d) txt) \<le> c"
    using rem ov cs qd unfolding L_def by simp
  have lastw: "text (window txt chunkSize overlap q) = drop (q * d) txt"
    using len_last unfolding text_window c_def d_def by simp
  have prevw: "text (window txt chunkSize overlap p) = drop (p * d) txt"
    using len_prev unfolding text_window c_def d_def by simp
  have "drop (q * d) txt = drop d (drop (p * d) txt)"
    unfolding qd by (simp only: drop_drop add.commute)
  then have "suffix (drop (q * d) txt) (drop (p * d) txt)"
    by (simp only: suffix_drop)
  then have "suffix (text (window txt chunkSize overlap q))
                    (text (window txt chunkSize overlap p))"
    by (simp only: lastw prevw)
  moreover have "number_of_chunks (length txt) (nat (chunkSize - overlap)) - 1 = q"
    using n unfolding d_def L_def by simp
  moreover have "number_of_chunks (length txt) (nat (chunkSize - overlap)) - 2 = p"
    using n qp unfolding d_def L_def by simp
  ultimately show ?thesis by (simp only:)
qed

text \<open>
  Claim C10. For every text of length \<open>L\<close> and valid pair, \<open>chunkText\<close> returns exactly
  \<open>\<lceil>L / (chunkSize - overlap)\<rceil>\<close> chunks; and when \<open>L mod (chunkSize - overlap)\<close> is not
  zero and at most \<open>overlap\<close>, and there is a chunk before the final one, the text of the
  final chunk is a suffix of the text of the chunk before it.
\<close>

theorem chunkText_count:
  assumes "0 < chunkSize" "0 \<le> overlap" "overlap < chunkSize"
  shows "\<exists>chunks. chunkText txt chunkSize overlap = Some (Inr chunks) \<and>
     int (length chunks) = \<lceil>real (length txt) / real_of_int (chunkSize - overlap)\<rceil> \<and>
     (length txt mod nat (chunkSize - overlap) \<noteq> 0 \<and>
      int (length txt mod nat (chunkSize - overlap)) \<le> overlap \<and> 2 \<le> length chunks \<longrightarrow>
        suffix (text (last chunks)) (text (chunks ! (length chunks - 2))))"
proof -
  let ?d = "nat (chunkSize - overlap)"
  let ?n = "number_of_chunks (length txt) ?d"
  let ?chunks = "map (window txt chunkSize overlap) [0..<?n]"
  have d: "0 < ?d" using assms by simp
  have dreal: "real ?d = real_of_int (chunkSize - overlap)" using assms by simp
  have a: "chunkText txt chunkSize overlap = Some (Inr ?chunks)"
    by (rule chunkText_closed [OF assms])
  have b: "int (length ?chunks) = \<lceil>real (length txt) / real_of_int (chunkSize - overlap)\<rceil>"
    using number_of_chunks_ceiling [OF d, of "length txt"] by (simp only: dreal length_map length_upt diff_zero)
  have c: "length txt mod ?d \<noteq> 0 \<and> int (length txt mod ?d) \<le> overlap \<and> 2 \<le> length ?chunks \<longrightarrow>
        suffix (text (last ?chunks)) (text (?chunks ! (length ?chunks - 2)))"
  proof (intro impI, elim conjE)
    assume h: "length txt mod ?d \<noteq> 0" "int (length txt mod ?d) \<le> overlap" "2 \<le> length ?chunks"
    then have n2: "2 \<le> ?n" by simp
    have l: "last ?chunks = window txt chunkSize overlap (?n - 1)"
      using n2 by (simp add: last_map)
    have p: "?chunks ! (length ?chunks - 2) = window txt chunkSize overlap (?n - 2)"
      using n2 by simp
    show "suffix (text (last ?chunks)) (text (?chunks ! (length ?chunks - 2)))"
      unfolding l p by (rule last_window_suffix [OF assms h(1) h(2) n2])
  qed
  from a b c show ?thesis
    by (intro exI [of _ ?chunks] conjI) assumption+
qed

text \<open>
  At a text of seven distinct characters with \<open>chunkSize = 5\<close> and \<open>overlap = 3\<close> the
  remainder is 1: the final chunk lies in the tail of the third, and its character is
  stored in the second chunk as well.
\<close>

theorem chunkText_count_witness:
  "chunkText [0, 1, 2, 3, 4, 5, 6 :: nat] 5 3 =
     Some (Inr [\<lparr>text = [0, 1, 2, 3, 4], index = 0\<rparr>, \<lparr>text = [2, 3, 4, 5, 6], index = 1\<rparr>,
                \<lparr>text = [4, 5, 6], index = 2\<rparr>, \<lparr>text = [6], index = 3\<rparr>]) \<and>
   (4::int) = \<lceil>real 7 / real_of_int 2\<rceil> \<and>
   suffix [6 :: nat] [4, 5, 6]"
proof -
  have e: "chunkText [0, 1, 2, 3, 4, 5, 6 :: nat] 5 3 =
     Some (Inr [\<lparr>text = [0, 1, 2, 3, 4], index = 0\<rparr>, \<lparr>text = [2, 3, 4, 5, 6], index = 1\<rparr>,
                \<lparr>text = [4, 5, 6], index = 2\<rparr>, \<lparr>text = [6], index = 3\<rparr>])"
    by (simp add: chunkText_def chunkText_loop.simps slice_def)
  show ?thesis
    using chunkText_count [of 5 3 "[0, 1, 2, 3, 4, 5, 6 :: nat]"]
    unfolding e by simp
qed

section \<open>Properties of the embedding client\<close>

lemma loop_success:
  assumes "attempt < MAX_RETRIES" "try_create (create sent) = Inr v"
  shows "generateEmbedding_loop create attempt delayMs slept sent =
           \<lparr>returned = Inr v, delays = slept, requests = sent + 1\<rparr>"
  using assms by (subst generateEmbedding_loop.simps) simp

lemma loop_retry:
  assumes "attempt + 1 < MAX_RETRIES" "try_create (create sent) = Inl e"
  shows "generateEmbedding_loop create attempt delayMs slept sent =
           generateEmbedding_loop create (attempt + 1) (delayMs * 2) (slept @ [delayMs]) (sent + 1)"
  using assms by (subst generateEmbedding_loop.simps) simp

lemma loop_give_up:
  assumes "attempt < MAX_RETRIES" "attempt + 1 \<ge> MAX_RETRIES" "try_create (create sent) = Inl e"
  shows "generateEmbedding_loop create attempt delayMs slept sent =
           \<lparr>returned = Inl e, delays = slept, requests = sent + 1\<rparr>"
  using assms by (subst generateEmbedding_loop.simps) simp

lemma generateEmbedding_first_try:
  assumes "try_create (create txt 0) = Inr v"
  shows "generateEmbedding create txt = \<lparr>returned = Inr v, delays = [], requests = 1\<rparr>"
  unfolding generateEmbedding_def
  using loop_success [of 0 "create txt" 0 v 250 "[]"] assms by (simp add: MAX_RETRIES_def)

text \<open>
  Claim C3. For every input string and every behaviour of the service, \<open>generateEmbedding\<close>
  sends at most 3 requests; it waits once before every request after the first, 250 before
  the second and twice as long before each further one, and never after the last; a failed
  request is retried whatever the failure, and a response without a vector is a failure; a
  call that fails twice and then succeeds returns the vector of the third request after
  the delays 250 and 500; after three failures the error of the third request is thrown.
\<close>

theorem generateEmbedding_retry:
  "requests (generateEmbedding create txt) \<le> 3 \<and>
   delays (generateEmbedding create txt) =
     map (\<lambda>i. 250 * 2 ^ i) [0..<requests (generateEmbedding create txt) - 1] \<and>
   (\<forall>v. try_create (create txt 0) = Inr v \<longrightarrow>
      generateEmbedding create txt = \<lparr>returned = Inr v, delays = [], requests = 1\<rparr>) \<and>
   (\<forall>e0 v. try_create (create txt 0) = Inl e0 \<and> try_create (create txt 1) = Inr v \<longrightarrow>
      generateEmbedding create txt = \<lparr>returned = Inr v, delays = [250], requests = 2\<rparr>) \<and>
   (\<forall>e0 e1 v. try_create (create txt 0) = Inl e0 \<and> try_create (create txt 1) = Inl e1 \<and>
        try_create (create txt 2) = Inr v \<longrightarrow>
      generateEmbedding create txt = \<lparr>returned = Inr v, delays = [250, 500], requests = 3\<rparr>) \<and>
   (\<forall>e0 e1 e2. try_create (create txt 0) = Inl e0 \<and> try_create (create txt 1) = Inl e1 \<and>
        try_create (create txt 2) = Inl e2 \<longrightarrow>
      generateEmbedding create txt = \<lparr>returned = Inl e2, delays = [250, 500], requests = 3\<rparr>) \<and>
   try_create (Resolves None) = Inl (Error ''No embedding returned from OpenAI'')"
proof -
  let ?g = "generateEmbedding create txt"
  have c1: "?g = \<lparr>returned = Inr v, delays = [], requests = 1\<rparr>"
    if "try_create (create txt 0) = Inr v" for v
    unfolding generateEmbedding_def
    using loop_success [of 0 "create txt" 0 v 250 "[]"] that by (simp add: MAX_RETRIES_def)
  have c2: "?g = \<lparr>returned = Inr v, delays = [250], requests = 2\<rparr>"
    if "try_create (create txt 0) = Inl e0" "try_create (create txt 1) = Inr v" for e0 v
    unfolding generateEmbedding_def
    using loop_retry [of 0 "create txt" 0 e0 250 "[]"]
      loop_success [of 1 "create txt" 1 v 500 "[250]"] that
    by (simp add: MAX_RETRIES_def)
  have r2: "?g = generateEmbedding_loop (create txt) 2 1000 [250, 500] 2"
    if f0: "try_create (create txt 0) = Inl e0" and f1: "try_create (create txt 1) = Inl e1"
    for e0 e1
  proof -
    have "generateEmbedding_loop (create txt) 0 250 [] 0 =
          generateEmbedding_loop (create txt) (0 + 1) (250 * 2) ([] @ [250]) (0 + 1)"
      by (rule loop_retry [where e = e0]) (use f0 in \<open>simp_all add: MAX_RETRIES_def\<close>)
    also have "\<dots> = generateEmbedding_loop (create txt) 1 500 [250] 1" by simp
    also have "\<dots> = generateEmbedding_loop (create txt) (1 + 1) (500 * 2) ([250] @ [500]) (1 + 1)"
      by (rule loop_retry [where e = e1]) (use f1 in \<open>simp_all add: MAX_RETRIES_def\<close>)
    also have "\<dots> = generateEmbedding_loop (create txt) 2 1000 [250, 500] 2"
      by (simp add: numeral_2_eq_2)
    finally show ?thesis by (simp only: generateEmbedding_def)
  qed
  have c3: "?g = \<lparr>returned = Inr v, delays = [250, 500], requests = 3\<rparr>"
    if "try_create (create txt 0) = Inl e0" "try_create (create txt 1) = Inl e1"
      "try_create (create txt 2) = Inr v" for e0 e1 v
    using r2 [OF that(1,2)] loop_success [of 2 "create txt" 2 v 1000 "[250, 500]"] that(3)
    by (simp add: MAX_RETRIES_def)
  have c4: "?g = \<lparr>returned = Inl e2, delays = [250, 500], requests = 3\<rparr>"
    if "try_create (create txt 0) = Inl e0" "try_create (create txt 1) = Inl e1"
      "try_create (create txt 2) = Inl e2" for e0 e1 e2
    using r2 [OF that(1,2)] loop_give_up [of 2 "create txt" 2 e2 1000 "[250, 500]"] that(3)
    by (simp add: MAX_RETRIES_def)
  have up3: "[0..<2] = [0, Suc 0]" by (simp add: upt_rec)
  have shape: "requests ?g \<le> 3 \<and> delays ?g = map (\<lambda>i. 250 * 2 ^ i) [0..<requests ?g - 1]"
  proof (cases "try_create (create txt 0)")
    case (Inr v)
    then show ?thesis using c1 by simp
  next
    case a: (Inl e0)
    show ?thesis
    proof (cases "try_create (create txt 1)")
      case (Inr v)
      then show ?thesis using c2 a by simp
    next
      case b: (Inl e1)
      show ?thesis
      proof (cases "try_create (create txt 2)")
        case (Inr v)
        then show ?thesis using c3 a b by (simp add: up3)
      next
        case (Inl e2)
        then show ?thesis using c4 a b by (simp add: up3)
      qed
    qed
  qed
  have np: "try_create (Resolves None) = Inl (Error ''No embedding returned from OpenAI'')"
    by (simp add: try_create_def)
  from shape c1 c2 c3 c4 np show ?thesis by (intro conjI allI impI) (elim conjE, simp_all)
qed

theorem generateEmbedding_retry_witness:
  "generateEmbedding fails_twice ''question'' =
     \<lparr>returned = Inr [1, 2], delays = [250, 500], requests = 3\<rparr> \<and>
   generateEmbedding never_embeds ''question'' =
     \<lparr>returned = Inl (Error ''rate limit''), delays = [250, 500], requests = 3\<rparr>"
  using generateEmbedding_retry [of fails_twice "''question''"]
    generateEmbedding_retry [of never_embeds "''question''"]
  by (simp add: try_create_def fails_twice_def never_embeds_def)

section \<open>Properties of ingestion\<close>

lemma Promise_all_Inr:
  "Promise_all ps = Inr xs \<Longrightarrow> ps = map Inr xs"
proof (induction ps arbitrary: xs)
  case Nil
  then show ?case by simp
next
  case (Cons p ps)
  show ?case
  proof (cases p)
    case (Inl e)
    then show ?thesis using Cons.prems by simp
  next
    case (Inr x)
    then obtain ys where ys: "Promise_all ps = Inr ys" and xs: "xs = x # ys"
      using Cons.prems by (auto split: sum.splits)
    then show ?thesis using Cons.IH [OF ys] Inr by simp
  qed
qed

lemma embed_chunk_fst:
  "embed_chunk service chunk = Inr p \<Longrightarrow> fst p = chunk"
  by (auto simp: embed_chunk_def split: sum.splits)

lemma embedded_chunks:
  assumes "Promise_all (map (embed_chunk service) chunks) = Inr embeddings"
  shows "map fst embeddings = chunks"
proof -
  have eq: "map (embed_chunk service) chunks = map Inr embeddings"
    by (rule Promise_all_Inr [OF assms])
  then have len: "length chunks = length embeddings" using length_map by metis
  show ?thesis
  proof (rule nth_equalityI)
    show "length (map fst embeddings) = length chunks" using len by simp
  next
    fix i assume "i < length (map fst embeddings)"
    then have i: "i < length chunks" using len by simp
    have "map (embed_chunk service) chunks ! i = map Inr embeddings ! i" using eq by simp
    then have "embed_chunk service (chunks ! i) = Inr (embeddings ! i)"
      using i len by simp
    then show "map fst embeddings ! i = chunks ! i"
      using embed_chunk_fst i len by fastforce
  qed
qed

lemma build_rows_nth:
  assumes "k < length embeddings"
  shows "content (build_rows filename n embeddings ! k) = text (fst (embeddings ! k))"
    and "metadata (build_rows filename n embeddings ! k) =
           Some \<lparr>metadata.source = filename, chunk_index = index (fst (embeddings ! k)),
                 total_chunks = n\<rparr>"
  using assms by (simp_all add: build_rows_def case_prod_beta)

lemma embed_chunk_always:
  "embed_chunk always_embeds chunk = Inr (chunk, [])"
  using generateEmbedding_first_try [of "always_embeds (index chunk)" "text chunk" "[]"]
  by (simp add: embed_chunk_def always_embeds_def try_create_def)

lemma chunkText_default_short:
  assumes "0 < length t" "length t \<le> 450"
  shows "chunkText_call t None None = Some (Inr [\<lparr>text = t, index = 0\<rparr>])"
proof -
  have n: "number_of_chunks (length t) 450 = 1"
    using assms number_of_chunks_less_iff [of 450 0 "length t"] number_of_chunks_less_iff [of 450 1 "length t"]
    by simp
  show ?thesis
    using chunkText_closed [of 500 50 t] assms
    by (simp add: chunkText_call_def n window_def)
qed

lemma chunkText_default_451:
  "chunkText_call (replicate 451 c) None None =
     Some (Inr [\<lparr>text = replicate 451 c, index = 0\<rparr>, \<lparr>text = [c], index = 1\<rparr>])"
proof -
  have n: "number_of_chunks 451 450 = 2" by (simp add: number_of_chunks_def)
  have u: "[0..<2] = [0, 1]" by (simp add: upt_rec numeral_2_eq_2)
  show ?thesis
    using chunkText_closed [of 500 50 "replicate 451 c"]
    by (simp add: chunkText_call_def n u window_def)
qed

text \<open>
  The handler always returns: with the default parameters the segmenter loop ends.
\<close>

lemma ingest_returns:
  "\<exists>result. ingest service insert_error now table contents filename = Some result"
proof -
  obtain chunks where "chunkText contents 500 50 = Some (Inr chunks)"
    using chunkText_closed [of 500 50 contents] by simp
  then have "chunkText_call contents None None = Some (Inr chunks)"
    by (simp add: chunkText_call_def)
  then show ?thesis
    by (simp add: ingest_def Let_def split: sum.split option.split)
qed

lemma POST_upload_returns:
  "\<exists>result. POST_upload service insert_error now table body_content body_filename = Some result"
  using ingest_returns by (simp add: POST_upload_def split: option.split)

text \<open>
  Two uploads under the same file name, the first of one character and the second of 451
  characters: the table then holds three rows of that source, one with
  \<^verbatim>\<open>total_chunks = 1\<close> and two with \<^verbatim>\<open>total_chunks = 2\<close>.
\<close>

theorem POST_upload_total_chunks_counterexample:
  "POST_upload always_embeds None 1 [] (Some ''a'') (Some ''pasted_text.txt'') =
     Some (UploadSuccess 1,
       [\<lparr>content = ''a'', embedding = [],
         metadata = Some \<lparr>metadata.source = ''pasted_text.txt'', chunk_index = 0, total_chunks = 1\<rparr>,
         StoredDocument.created_at = 1\<rparr>]) \<and>
   POST_upload always_embeds None 2
     [\<lparr>content = ''a'', embedding = [],
       metadata = Some \<lparr>metadata.source = ''pasted_text.txt'', chunk_index = 0, total_chunks = 1\<rparr>,
       StoredDocument.created_at = 1\<rparr>]
     (Some (replicate 451 (CHR ''b''))) (Some ''pasted_text.txt'') =
     Some (UploadSuccess 2,
       [\<lparr>content = ''a'', embedding = [],
         metadata = Some \<lparr>metadata.source = ''pasted_text.txt'', chunk_index = 0, total_chunks = 1\<rparr>,
         StoredDocument.created_at = 1\<rparr>,
        \<lparr>content = replicate 451 (CHR ''b''), embedding = [],
         metadata = Some \<lparr>metadata.source = ''pasted_text.txt'', chunk_index = 0, total_chunks = 2\<rparr>,
         StoredDocument.created_at = 2\<rparr>,
        \<lparr>content = ''b'', embedding = [],
         metadata = Some \<lparr>metadata.source = ''pasted_text.txt'', chunk_index = 1, total_chunks = 2\<rparr>,
         StoredDocument.created_at = 2\<rparr>])"
proof -
  have a: "chunkText_call ''a'' None None = Some (Inr [\<lparr>text = ''a'', index = 0\<rparr>])"
    by (rule chunkText_default_short) simp_all
  show ?thesis
    by (simp add: POST_upload_def ingest_def a chunkText_default_451 embed_chunk_always
        build_rows_def insert_rows_def)
qed

text \<open>
  Claim C8, amended. The rows written by one ingestion are exactly one row per chunk of the
  text, in chunk order, appended to the table; each has the text of its chunk as content,
  the supplied file name as \<^verbatim>\<open>metadata.source\<close>, the index of its chunk as
  \<^verbatim>\<open>metadata.chunk_index\<close> and the number of chunks of the text as
  \<^verbatim>\<open>metadata.total_chunks\<close>, which is therefore the same in all rows written by that
  ingestion.
\<close>

theorem ingest_rows:
  assumes "ingest service insert_error now table contents filename =
             Some (UploadSuccess n, table')"
  shows "\<exists>chunks rows. chunkText contents 500 50 = Some (Inr chunks) \<and>
           n = length chunks \<and> length rows = length chunks \<and>
           table' = insert_rows now table rows \<and>
           (\<forall>k < length chunks.
              content (rows ! k) = text (chunks ! k) \<and>
              metadata (rows ! k) =
                Some \<lparr>metadata.source = filename, chunk_index = index (chunks ! k),
                      total_chunks = length chunks\<rparr>)"
proof -
  obtain chunks where ch: "chunkText contents 500 50 = Some (Inr chunks)"
    using chunkText_closed [of 500 50 contents] by simp
  have call: "chunkText_call contents None None = Some (Inr chunks)"
    using ch by (simp add: chunkText_call_def)
  obtain embeddings where em: "Promise_all (map (embed_chunk service) chunks) = Inr embeddings"
    using assms by (auto simp: ingest_def call split: sum.splits)
  have ok: "insert_error = None"
    using assms em by (simp add: ingest_def call Let_def split: option.splits)
  let ?rows = "build_rows filename (length chunks) embeddings"
  have res: "n = length ?rows" "table' = insert_rows now table ?rows"
    using assms em ok by (simp_all add: ingest_def call Let_def)
  have fst: "map fst embeddings = chunks" by (rule embedded_chunks [OF em])
  then have len: "length embeddings = length chunks" using length_map by metis
  have lrows: "length ?rows = length chunks" using len by (simp add: build_rows_def)
  have nth: "fst (embeddings ! k) = chunks ! k" if "k < length chunks" for k
    using fst that len by (metis nth_map)
  have a: "n = length chunks" using res(1) lrows by simp
  have d: "\<forall>k < length chunks.
              content (?rows ! k) = text (chunks ! k) \<and>
              metadata (?rows ! k) =
                Some \<lparr>metadata.source = filename, chunk_index = index (chunks ! k),
                      total_chunks = length chunks\<rparr>"
    using build_rows_nth [of _ embeddings filename "length chunks"] nth len by simp
  from ch a lrows res(2) d show ?thesis
    by (intro exI [of _ chunks] exI [of _ ?rows] conjI) assumption+
qed

theorem ingest_rows_witness:
  "\<exists>chunks rows. chunkText ''The quick brown fox.'' 500 50 = Some (Inr chunks) \<and>
     (1::nat) = length chunks \<and> length rows = length chunks \<and>
     [\<lparr>content = ''The quick brown fox.'', embedding = [],
       metadata = Some \<lparr>metadata.source = ''fox.txt'', chunk_index = 0, total_chunks = 1\<rparr>,
       StoredDocument.created_at = 7\<rparr>] = insert_rows 7 [] rows \<and>
     (\<forall>k < length chunks.
        content (rows ! k) = text (chunks ! k) \<and>
        metadata (rows ! k) =
          Some \<lparr>metadata.source = ''fox.txt'', chunk_index = index (chunks ! k),
                total_chunks = length chunks\<rparr>)"
proof -
  have a: "chunkText_call ''The quick brown fox.'' None None =
             Some (Inr [\<lparr>text = ''The quick brown fox.'', index = 0\<rparr>])"
    by (rule chunkText_default_short) simp_all
  have h: "ingest always_embeds None 7 [] ''The quick brown fox.'' ''fox.txt'' =
     Some (UploadSuccess 1,
       [\<lparr>content = ''The quick brown fox.'', embedding = [],
         metadata = Some \<lparr>metadata.source = ''fox.txt'', chunk_index = 0, total_chunks = 1\<rparr>,
         StoredDocument.created_at = 7\<rparr>])"
    by (simp add: ingest_def a embed_chunk_always build_rows_def insert_rows_def)
  show ?thesis by (rule ingest_rows [OF h])
qed

section \<open>Properties of the listing\<close>

lemma summarise_row_other:
  assumes "source_of r \<noteq> Some s"
  shows "map_of (summarise_row summaries r) s = map_of summaries s"
proof (cases "source_of r")
  case None
  then show ?thesis by (simp add: summarise_row_def)
next
  case (Some k)
  then have ks: "k \<noteq> s" using assms by simp
  have inc: "map_of (increment_chunk_count al k) s = map_of al s" for al
    using ks by (simp add: increment_chunk_count_def update_conv split: option.split)
  show ?thesis
    using Some ks unfolding summarise_row_def
    by (simp add: inc update_conv)
qed

lemma summarise_row_same:
  assumes "source_of r = Some s" "listable s"
  shows "map_of (summarise_row summaries r) s =
           (case map_of summaries s of
              Some d \<Rightarrow> Some (d\<lparr>chunk_count := chunk_count d + 1\<rparr>)
            | None \<Rightarrow> Some \<lparr>DocumentSummary.source = s, chunk_count = 1,
                              created_at = StoredDocument.created_at r\<rparr>)"
proof (cases "map_of summaries s")
  case None
  then have "\<not> has_truthy_member summaries s"
    using assms(2) by (simp add: has_truthy_member_def listable_def)
  then show ?thesis
    using assms None unfolding summarise_row_def
    by (simp add: increment_chunk_count_def update_conv listable_def)
next
  case (Some d)
  then have "has_truthy_member summaries s" by (simp add: has_truthy_member_def)
  then show ?thesis
    using assms Some unfolding summarise_row_def
    by (simp add: increment_chunk_count_def update_conv listable_def)
qed

lemma well_keyed_update:
  assumes "well_keyed summaries" "DocumentSummary.source d = k"
  shows "well_keyed (AList.update k d summaries)"
  using assms by (simp add: well_keyed_def distinct_update update_conv)

lemma increment_well_keyed:
  assumes "well_keyed summaries"
  shows "well_keyed (increment_chunk_count summaries k)"
proof (cases "map_of summaries k")
  case None
  then show ?thesis using assms by (simp add: increment_chunk_count_def)
next
  case (Some d)
  have "DocumentSummary.source d = k" using assms Some by (simp add: well_keyed_def)
  then have "DocumentSummary.source (d\<lparr>chunk_count := chunk_count d + 1\<rparr>) = k" by simp
  then have "well_keyed (AList.update k (d\<lparr>chunk_count := chunk_count d + 1\<rparr>) summaries)"
    by (rule well_keyed_update [OF assms])
  then show ?thesis using Some by (simp add: increment_chunk_count_def)
qed

lemma summarise_row_well_keyed:
  assumes "well_keyed summaries"
  shows "well_keyed (summarise_row summaries r)"
proof (cases "source_of r")
  case None
  then show ?thesis using assms by (simp add: summarise_row_def)
next
  case (Some s)
  have u: "well_keyed (AList.update s \<lparr>DocumentSummary.source = s, chunk_count = 0,
          created_at = StoredDocument.created_at r\<rparr> summaries)"
    by (rule well_keyed_update [OF assms]) simp
  show ?thesis
    using Some unfolding summarise_row_def
    by (simp add: assms u increment_well_keyed)
qed

lemma foldl_summarise_well_keyed:
  "well_keyed summaries \<Longrightarrow> well_keyed (foldl summarise_row summaries rows)"
  by (induction rows arbitrary: summaries) (simp_all add: summarise_row_well_keyed)

lemma foldl_summarise_lookup:
  assumes "listable s"
  shows "map_of (foldl summarise_row summaries rows) s =
           (case map_of summaries s of
              Some d \<Rightarrow> Some (d\<lparr>chunk_count := chunk_count d + length (rows_of s rows)\<rparr>)
            | None \<Rightarrow>
                (case rows_of s rows of
                   [] \<Rightarrow> None
                 | r # rs \<Rightarrow> Some \<lparr>DocumentSummary.source = s, chunk_count = length (r # rs),
                                     created_at = StoredDocument.created_at r\<rparr>))"
proof (induction rows arbitrary: summaries)
  case Nil
  show ?case by (simp add: rows_of_def split: option.split)
next
  case (Cons r rows)
  have fold: "foldl summarise_row summaries (r # rows) =
              foldl summarise_row (summarise_row summaries r) rows" by simp
  show ?case
  proof (cases "source_of r = Some s")
    case False
    then have rs: "rows_of s (r # rows) = rows_of s rows" by (simp add: rows_of_def)
    show ?thesis
      unfolding fold rs Cons [of "summarise_row summaries r"]
        summarise_row_other [OF False, of summaries] ..
  next
    case True
    then have rs: "rows_of s (r # rows) = r # rows_of s rows" by (simp add: rows_of_def)
    show ?thesis
    proof (cases "map_of summaries s")
      case None
      have "map_of (summarise_row summaries r) s =
              Some \<lparr>DocumentSummary.source = s, chunk_count = 1,
                    created_at = StoredDocument.created_at r\<rparr>"
        using summarise_row_same [OF True assms, of summaries] None by simp
      then show ?thesis
        unfolding fold rs Cons [of "summarise_row summaries r"] using None by simp
    next
      case (Some d)
      have "map_of (summarise_row summaries r) s = Some (d\<lparr>chunk_count := chunk_count d + 1\<rparr>)"
        using summarise_row_same [OF True assms, of summaries] Some by simp
      then show ?thesis
        unfolding fold rs Cons [of "summarise_row summaries r"] using Some by simp
    qed
  qed
qed

lemma well_keyed_tail:
  assumes "well_keyed ((k, d) # summaries)"
  shows "well_keyed summaries" "DocumentSummary.source d = k" "map_of summaries k = None"
proof -
  have dist: "distinct (map fst summaries)" and fresh: "k \<notin> fst ` set summaries"
    using assms by (auto simp: well_keyed_def)
  show none: "map_of summaries k = None" using fresh by (simp add: map_of_eq_None_iff)
  show "DocumentSummary.source d = k" using assms by (simp add: well_keyed_def)
  have "DocumentSummary.source d' = k'" if "map_of summaries k' = Some d'" for k' d'
  proof -
    have "k' \<noteq> k" using that none by auto
    then have "map_of ((k, d) # summaries) k' = Some d'" using that by simp
    then show ?thesis using assms unfolding well_keyed_def by blast
  qed
  then show "well_keyed summaries" using dist by (simp add: well_keyed_def)
qed

lemma values_with_source:
  assumes "well_keyed summaries"
  shows "filter (\<lambda>d. DocumentSummary.source d = s) (map snd summaries) =
           (case map_of summaries s of None \<Rightarrow> [] | Some d \<Rightarrow> [d])"
  using assms
proof (induction summaries)
  case Nil
  show ?case by simp
next
  case (Cons p summaries)
  obtain k d where p: "p = (k, d)" by (cases p)
  note t = well_keyed_tail [OF Cons.prems [unfolded p]]
  show ?case
  proof (cases "k = s")
    case True
    then have "filter (\<lambda>d. DocumentSummary.source d = s) (map snd summaries) = []"
      using Cons.IH [OF t(1)] t(3) by simp
    then show ?thesis using True t(2) by (simp add: p)
  next
    case False
    then show ?thesis using Cons.IH [OF t(1)] t(2) by (simp add: p)
  qed
qed

lemma hd_sorted_filter_Min:
  fixes f :: "'a \<Rightarrow> nat"
  assumes "sorted (map f xs)" "filter P xs \<noteq> []"
  shows "f (hd (filter P xs)) = Min (f ` set (filter P xs))"
proof -
  have s: "sorted (map f (filter P xs))" using assms(1) by (rule sorted_filter)
  obtain y ys where ys: "filter P xs = y # ys" using assms(2) by (cases "filter P xs") auto
  have "\<forall>z \<in> set (y # ys). f y \<le> f z" using s unfolding ys by auto
  then have "Min (f ` set (y # ys)) = f y"
    by (intro Min_eqI) auto
  then show ?thesis by (simp add: ys)
qed

text \<open>
  Two rows of one source, the later one returned first by the table: the summary carries
  the timestamp of the first row returned, 5, and the earliest is 3.
\<close>

theorem GET_summaries_counterexample:
  "GET None (Some [stored ''notes.txt'' 5, stored ''notes.txt'' 3]) =
     Documents [\<lparr>DocumentSummary.source = ''notes.txt'', chunk_count = 2, created_at = 5\<rparr>] \<and>
   Min (StoredDocument.created_at ` set [stored ''notes.txt'' 5, stored ''notes.txt'' 3]) = 3"
  by (simp add: GET_def stored_def summarise_row_def source_of_def has_truthy_member_def
      increment_chunk_count_def object_prototype_keys_def)

text \<open>
  Claim C9, amended. For every source present in the rows that is not empty and not the
  name of a member of \<^verbatim>\<open>Object.prototype\<close>, the listing returns exactly one summary of
  that source; its \<^verbatim>\<open>chunk_count\<close> is the number of rows of that source and its
  \<^verbatim>\<open>created_at\<close> is that of the first row of that source in the order the table returned
  the rows, which is the earliest one when the table returns the rows oldest first.
\<close>

theorem GET_summaries:
  assumes "listable s" "rows_of s rows \<noteq> []"
  shows "\<exists>summaries d. GET None (Some rows) = Documents summaries \<and>
           filter (\<lambda>d. DocumentSummary.source d = s) summaries = [d] \<and>
           chunk_count d = length (rows_of s rows) \<and>
           DocumentSummary.created_at d = StoredDocument.created_at (hd (rows_of s rows)) \<and>
           (sorted (map StoredDocument.created_at rows) \<longrightarrow>
              DocumentSummary.created_at d = Min (StoredDocument.created_at ` set (rows_of s rows)))"
proof -
  let ?al = "foldl summarise_row [] rows"
  obtain r rs where rr: "rows_of s rows = r # rs" using assms(2) by (cases "rows_of s rows") auto
  let ?d = "\<lparr>DocumentSummary.source = s, chunk_count = length (r # rs),
             created_at = StoredDocument.created_at r\<rparr>"
  have wk: "well_keyed ?al" by (rule foldl_summarise_well_keyed) (simp add: well_keyed_def)
  have look: "map_of ?al s = Some ?d"
    using foldl_summarise_lookup [OF assms(1), of "[]" rows] by (simp add: rr)
  have a: "GET None (Some rows) = Documents (map snd ?al)" by (simp add: GET_def)
  have b: "filter (\<lambda>d. DocumentSummary.source d = s) (map snd ?al) = [?d]"
    using values_with_source [OF wk, of s] look by simp
  have c: "chunk_count ?d = length (rows_of s rows)" by (simp add: rr)
  have d: "DocumentSummary.created_at ?d = StoredDocument.created_at (hd (rows_of s rows))"
    by (simp add: rr)
  have e: "sorted (map StoredDocument.created_at rows) \<longrightarrow>
             DocumentSummary.created_at ?d = Min (StoredDocument.created_at ` set (rows_of s rows))"
  proof
    assume srt: "sorted (map StoredDocument.created_at rows)"
    have ne: "filter (\<lambda>r. source_of r = Some s) rows \<noteq> []"
      using assms(2) by (simp add: rows_of_def)
    have "StoredDocument.created_at (hd (rows_of s rows)) =
               Min (StoredDocument.created_at ` set (rows_of s rows))"
      unfolding rows_of_def by (rule hd_sorted_filter_Min [OF srt ne])
    then show "DocumentSummary.created_at ?d = Min (StoredDocument.created_at ` set (rows_of s rows))"
      using d by simp
  qed
  from a b c d e show ?thesis
    by (intro exI [of _ "map snd ?al"] exI [of _ ?d] conjI) assumption+
qed

theorem GET_summaries_witness:
  "\<exists>summaries d. GET None (Some [stored ''a.txt'' 3, stored ''b.txt'' 4, stored ''a.txt'' 5]) =
       Documents summaries \<and>
     filter (\<lambda>d. DocumentSummary.source d = ''a.txt'') summaries = [d] \<and>
     chunk_count d = 2 \<and> DocumentSummary.created_at d = 3 \<and>
     DocumentSummary.created_at d = Min {3, 5}"
proof -
  have l: "listable ''a.txt''" by (simp add: listable_def object_prototype_keys_def)
  have r: "rows_of ''a.txt'' [stored ''a.txt'' 3, stored ''b.txt'' 4, stored ''a.txt'' 5] =
           [stored ''a.txt'' 3, stored ''a.txt'' 5]"
    by (simp add: rows_of_def source_of_def stored_def)
  have n: "rows_of ''a.txt'' [stored ''a.txt'' 3, stored ''b.txt'' 4, stored ''a.txt'' 5] \<noteq> []"
    by (simp add: r)
  have c: "StoredDocument.created_at (stored x t) = t" for x t by (simp add: stored_def)
  show ?thesis
    using GET_summaries [OF l n] unfolding r by (simp add: c numeral_2_eq_2)
qed

text \<open>
  A source named like a member of \<^verbatim>\<open>Object.prototype\<close> gets no summary.
\<close>

lemma GET_inherited_key_example:
  "GET None (Some [stored ''constructor'' 1, stored ''a.txt'' 2]) =
     Documents [\<lparr>DocumentSummary.source = ''a.txt'', chunk_count = 1, created_at = 2\<rparr>]"
  by (simp add: GET_def stored_def summarise_row_def source_of_def has_truthy_member_def
      increment_chunk_count_def object_prototype_keys_def)

section \<open>Properties of answering\<close>

subsection \<open>The output stream\<close>

lemma reader_read_open:
  "open_with chunks c \<Longrightarrow> open_with chunks (reader_read c)"
  by (auto simp: open_with_def reader_read_def split: list.splits)

lemma reader_reads_open:
  "open_with chunks c \<Longrightarrow> open_with chunks (reader_reads n c)"
  by (induction n) (simp_all add: reader_reads_def reader_read_open)

lemma enqueue_open:
  assumes "open_with chunks c"
  shows "\<exists>c'. controller_enqueue chunk c = Inr c' \<and> open_with (chunks @ [chunk]) c'"
  using assms by (auto simp: open_with_def controller_enqueue_def can_close_or_enqueue_def)

lemma for_await_open:
  assumes "open_with chunks c"
  shows "\<exists>i' c'. for_await enc pce i evs c = (None, i', c') \<and>
           open_with (chunks @ map enc (text_increments evs)) c'"
  using assms
proof (induction enc pce i evs c arbitrary: chunks rule: for_await.induct)
  case (1 enc pce i c)
  then show ?case by simp
next
  case (2 enc pce i t rest c)
  obtain c' where c': "controller_enqueue (enc t) c = Inr c'"
    and o: "open_with (chunks @ [enc t]) c'"
    using enqueue_open [OF "2.prems"] by blast
  have "open_with (chunks @ [enc t]) (reader_reads (pce i) c')"
    by (rule reader_reads_open [OF o])
  from "2.IH" [OF c' this] show ?case using c' by simp
qed (simp_all)

lemma close_open:
  assumes "open_with chunks c"
  shows "\<exists>c'. controller_close c = Inr c' \<and> closing_with chunks c'"
  using assms
  by (auto simp: open_with_def closing_with_def controller_close_def can_close_or_enqueue_def)

lemma reader_read_closing:
  assumes "closing_with chunks c"
  shows "closing_with chunks (reader_read c)"
    and "length (queue (reader_read c)) = length (queue c) - 1"
  using assms by (auto simp: closing_with_def reader_read_def split: list.splits)

lemma reader_reads_closing:
  assumes "closing_with chunks c"
  shows "closing_with chunks (reader_reads n c) \<and>
         length (queue (reader_reads n c)) = length (queue c) - n"
proof (induction n)
  case 0
  show ?case using assms by (simp add: reader_reads_def)
next
  case (Suc n)
  then have cw: "closing_with chunks (reader_reads n c)"
    and len: "length (queue (reader_reads n c)) = length (queue c) - n" by simp_all
  have step: "reader_reads (Suc n) c = reader_read (reader_reads n c)"
    by (simp add: reader_reads_def)
  show ?case
    unfolding step using reader_read_closing [OF cw] len by simp
qed

lemma drain_closing:
  assumes "closing_with chunks c"
  shows "delivered (drain c) = chunks" "queue (drain c) = []" "state (drain c) = Closed"
proof -
  have cw: "closing_with chunks (drain c)" and "length (queue (drain c)) = 0"
    using reader_reads_closing [OF assms, of "length (queue c)"] by (simp_all add: drain_def)
  then have q: "queue (drain c) = []" by simp
  show "queue (drain c) = []" by (rule q)
  show "delivered (drain c) = chunks" using cw q by (simp add: closing_with_def)
  show "state (drain c) = Closed" using cw q by (simp add: closing_with_def)
qed

lemma reader_reads_not_readable:
  "state c \<noteq> Readable \<Longrightarrow> reader_reads n c = c"
  by (induction n) (simp_all add: reader_reads_def reader_read_def)

lemma ReadableStream_complete:
  assumes "failure s = None"
  shows "closing_with (map enc (text_increments (events s)) @ [enc (newline # SOURCE_MARKER @ json)])
           (ReadableStream enc pce s json)"
proof -
  have o: "open_with [] new_controller" by (simp add: open_with_def new_controller_def)
  obtain i c1 where fa: "for_await enc pce 0 (events s) new_controller = (None, i, c1)"
    and o1: "open_with (map enc (text_increments (events s))) c1"
    using for_await_open [OF o, of enc pce 0 "events s"] by auto
  let ?all = "map enc (text_increments (events s)) @ [enc (newline # SOURCE_MARKER @ json)]"
  obtain c' where en: "controller_enqueue (enc (newline # SOURCE_MARKER @ json)) c1 = Inr c'"
    and o2: "open_with ?all c'"
    using enqueue_open [OF o1] by blast
  have o3: "open_with ?all (reader_reads (pce i) c')" by (rule reader_reads_open [OF o2])
  obtain c4 where cl: "controller_close (reader_reads (pce i) c') = Inr c4"
    and cw: "closing_with ?all c4"
    using close_open [OF o3] by blast
  have "start enc pce s json new_controller = (None, c4)"
    by (simp add: start_def fa assms en cl)
  then have "ReadableStream enc pce s json = c4" by (simp add: ReadableStream_def)
  then show ?thesis using cw by simp
qed

lemma ReadableStream_failure:
  assumes "failure s = Some e"
  shows "\<exists>i before. for_await enc pce 0 (events s) new_controller = (None, i, before) \<and>
           open_with (map enc (text_increments (events s))) before \<and>
           ReadableStream enc pce s json = before\<lparr>queue := [], state := Errored e\<rparr>"
proof -
  have o: "open_with [] new_controller" by (simp add: open_with_def new_controller_def)
  obtain i c1 where fa: "for_await enc pce 0 (events s) new_controller = (None, i, c1)"
    and o1: "open_with (map enc (text_increments (events s))) c1"
    using for_await_open [OF o, of enc pce 0 "events s"] by auto
  have r: "state c1 = Readable" using o1 by (simp add: open_with_def)
  let ?c3 = "c1\<lparr>queue := [], state := Errored e\<rparr>"
  have er: "controller_error e c1 = ?c3" using r by (simp add: controller_error_def)
  have cl: "controller_close ?c3 = Inl (TypeError ''Invalid state: Controller is already closed'')"
    by (simp add: controller_close_def can_close_or_enqueue_def)
  have "start enc pce s json new_controller =
          (Some (TypeError ''Invalid state: Controller is already closed''), ?c3)"
    by (simp add: start_def fa assms er cl)
  then have "ReadableStream enc pce s json = ?c3"
    by (simp add: ReadableStream_def controller_error_def)
  then show ?thesis using fa o1 by blast
qed

subsection \<open>The handler\<close>

lemma POST_rag_stream_cases:
  assumes "response (POST_rag env body_question document_source) = RagStream c"
  shows "\<exists>question v data.
           body_question = Some question \<and> question \<noteq> [] \<and> api_key env \<and>
           returned (generateEmbedding (embeddings_create env) question) = Inr v \<and>
           match_documents env v (7 / 10) 3 = Inr data \<and>
           narrow document_source (case data of None \<Rightarrow> [] | Some docs \<Rightarrow> docs) \<noteq> [] \<and>
           POST_rag env body_question document_source =
             \<lparr>response = RagStream
                (ReadableStream (encode env) (pace env)
                   (messages_stream env
                      (contextPrompt question
                         (narrow document_source (case data of None \<Rightarrow> [] | Some docs \<Rightarrow> docs))))
                   (stringify env
                      (sourcesPayload
                         (narrow document_source (case data of None \<Rightarrow> [] | Some docs \<Rightarrow> docs))))),
              generation_requests =
                [contextPrompt question
                   (narrow document_source (case data of None \<Rightarrow> [] | Some docs \<Rightarrow> docs))]\<rparr>"
proof (cases body_question)
  case None
  then show ?thesis using assms by (simp add: POST_rag_def refuse_def)
next
  case (Some question)
  show ?thesis
  proof (cases "question = [] \<or> \<not> api_key env")
    case True
    then show ?thesis using assms Some by (auto simp: POST_rag_def refuse_def split: if_splits)
  next
    case ok: False
    show ?thesis
    proof (cases "returned (generateEmbedding (embeddings_create env) question)")
      case (Inl e)
      then show ?thesis using assms Some ok by (simp add: POST_rag_def refuse_def)
    next
      case v: (Inr v)
      show ?thesis
      proof (cases "match_documents env v (7 / 10) 3")
        case (Inl msg)
        then show ?thesis using assms Some ok v by (simp add: POST_rag_def refuse_def)
      next
        case d: (Inr data)
        show ?thesis
        proof (cases "narrow document_source (case data of None \<Rightarrow> [] | Some docs \<Rightarrow> docs) = []")
          case True
          then show ?thesis
            using assms Some ok v d by (simp add: POST_rag_def refuse_def Let_def)
        next
          case False
          then show ?thesis
            using Some ok v d by (simp add: POST_rag_def Let_def)
        qed
      qed
    qed
  qed
qed

lemma demo_embedding:
  "returned (generateEmbedding (embeddings_create (demo s p)) q) = Inr []"
  using generateEmbedding_first_try [of "embeddings_create (demo s p)" q "[]"]
  by (simp add: demo_def try_create_def)

lemma demo_fields:
  "api_key (demo s p)" "match_documents (demo s p) v th k = Inr (Some [doc ''a.txt'' ''alpha''])"
  "messages_stream (demo s p) prompt = s" "encode (demo s p) = ascii"
  "stringify (demo s p) ps = ''[...]''" "pace (demo s p) = p"
  by (simp_all add: demo_def)

lemma source_of_doc: "source_of (doc src body) = Some src"
  by (simp add: source_of_def doc_def)

lemma POST_rag_demo:
  "POST_rag (demo s p) (Some ''q?'') None =
     \<lparr>response = RagStream (ReadableStream ascii p s ''[...]''),
      generation_requests = [contextPrompt ''q?'' [doc ''a.txt'' ''alpha'']]\<rparr>"
  by (simp add: POST_rag_def narrow_def Let_def demo_embedding demo_fields)

lemma for_await_greeting_lazy:
  "for_await ascii lazy_consumer 0 (events (greeting ending)) new_controller =
     (None, 2, \<lparr>queue = [ascii ''Hi'', ascii ''!''], delivered = [], state = Readable,
                closeRequested = False\<rparr>)"
  by (simp add: greeting_def new_controller_def controller_enqueue_def can_close_or_enqueue_def
      reader_reads_def lazy_consumer_def)

lemma for_await_greeting_one_read:
  "for_await ascii one_read_consumer 0 (events (greeting ending)) new_controller =
     (None, 2, \<lparr>queue = [ascii ''!''], delivered = [ascii ''Hi''], state = Readable,
                closeRequested = False\<rparr>)"
  by (simp add: greeting_def new_controller_def controller_enqueue_def can_close_or_enqueue_def
      reader_reads_def reader_read_def one_read_consumer_def)

lemma ReadableStream_greeting_lazy_failure:
  "ReadableStream ascii lazy_consumer (greeting (Some e)) json =
     \<lparr>queue = [], delivered = [], state = Errored e, closeRequested = False\<rparr>"
  by (simp add: ReadableStream_def start_def greeting_def new_controller_def
      controller_enqueue_def can_close_or_enqueue_def controller_close_def controller_error_def
      reader_reads_def reader_read_def lazy_consumer_def)

text \<open>
  A request whose \<^verbatim>\<open>document_source\<close> is the empty string, against a table that returns
  one match of source \<^verbatim>\<open>a.txt\<close>: the match is kept and the generative model is called.
\<close>

theorem POST_rag_empty_filter_counterexample:
  "POST_rag (demo (greeting None) eager_consumer) (Some ''q?'') (Some '''') =
     \<lparr>response = RagStream (ReadableStream ascii eager_consumer (greeting None) ''[...]''),
      generation_requests = [contextPrompt ''q?'' [doc ''a.txt'' ''alpha'']]\<rparr> \<and>
   source_of (doc ''a.txt'' ''alpha'') = Some ''a.txt''"
  by (simp add: POST_rag_def narrow_def Let_def demo_embedding demo_fields source_of_doc)

text \<open>
  Claim C2, amended. For every answering request that reaches the query, the candidates
  are what \<^verbatim>\<open>match_documents\<close> returned (called with the question vector, threshold 0.7
  and count 3, whatever the filter). A source filter that is not the empty string narrows
  them to the candidates whose \<^verbatim>\<open>metadata.source\<close> equals the filter; a missing or empty
  filter leaves them as they are. Whenever no match is left the response is the 404 error
  and no prompt is sent to the generative model, also when the table returned candidates
  of other sources; otherwise the prompt and the stream are built from the matches left.
\<close>

theorem POST_rag_source_filter:
  assumes "question \<noteq> []" "api_key env"
    and "returned (generateEmbedding (embeddings_create env) question) = Inr v"
    and "match_documents env v (7 / 10) 3 = Inr data"
  shows "let candidates = (case data of None \<Rightarrow> [] | Some docs \<Rightarrow> docs);
             matches = narrow document_source candidates
         in (\<forall>wanted. document_source = Some wanted \<and> wanted \<noteq> [] \<longrightarrow>
               matches = filter (\<lambda>doc. source_of doc = Some wanted) candidates) \<and>
            (document_source = None \<or> document_source = Some [] \<longrightarrow> matches = candidates) \<and>
            (matches = [] \<longrightarrow>
               POST_rag env (Some question) document_source =
                 \<lparr>response = RagError 404 ''No relevant chunks found. Try rephrasing or uploading.'',
                  generation_requests = []\<rparr>) \<and>
            (matches \<noteq> [] \<longrightarrow>
               POST_rag env (Some question) document_source =
                 \<lparr>response = RagStream
                    (ReadableStream (encode env) (pace env)
                       (messages_stream env (contextPrompt question matches))
                       (stringify env (sourcesPayload matches))),
                  generation_requests = [contextPrompt question matches]\<rparr>)"
proof -
  have a: "narrow (Some wanted) cs = filter (\<lambda>doc. source_of doc = Some wanted) cs"
    if "wanted \<noteq> []" for wanted cs
    using that by (simp add: narrow_def)
  have b: "narrow None cs = cs" "narrow (Some []) cs = cs" for cs
    by (simp_all add: narrow_def)
  show ?thesis
    using assms a b by (auto simp: POST_rag_def refuse_def Let_def)
qed

theorem POST_rag_source_filter_witness:
  "POST_rag (demo (greeting None) eager_consumer) (Some ''q?'') (Some ''b.txt'') =
     \<lparr>response = RagError 404 ''No relevant chunks found. Try rephrasing or uploading.'',
      generation_requests = []\<rparr> \<and>
   POST_rag (demo (greeting None) eager_consumer) (Some ''q?'') (Some ''a.txt'') =
     \<lparr>response = RagStream
        (ReadableStream ascii eager_consumer (greeting None) ''[...]''),
      generation_requests = [contextPrompt ''q?'' [doc ''a.txt'' ''alpha'']]\<rparr>"
  using POST_rag_source_filter [of "''q?''" "demo (greeting None) eager_consumer" "[]"
      "Some [doc ''a.txt'' ''alpha'']" "Some ''b.txt''"]
    POST_rag_source_filter [of "''q?''" "demo (greeting None) eager_consumer" "[]"
      "Some [doc ''a.txt'' ''alpha'']" "Some ''a.txt''"]
  by (simp add: demo_embedding demo_fields source_of_doc narrow_def)

text \<open>
  The chunks of a stream whose generation ends without an error, in terms of the prompt
  and the payload of the handler.
\<close>

lemma POST_rag_stream_chunks:
  assumes "POST_rag env body_question document_source =
             \<lparr>response = RagStream c, generation_requests = gs\<rparr>"
    and "\<forall>p \<in> set gs. failure (messages_stream env p) = None"
  shows "\<exists>question v data matches.
           body_question = Some question \<and>
           returned (generateEmbedding (embeddings_create env) question) = Inr v \<and>
           match_documents env v (7 / 10) 3 = Inr data \<and>
           matches = narrow document_source (case data of None \<Rightarrow> [] | Some docs \<Rightarrow> docs) \<and>
           gs = [contextPrompt question matches] \<and>
           delivered c @ queue c =
             map (encode env)
               (text_increments (events (messages_stream env (contextPrompt question matches)))) @
             [encode env (newline # SOURCE_MARKER @ stringify env (sourcesPayload matches))] \<and>
           closeRequested c \<and>
           delivered (drain c) = delivered c @ queue c \<and>
           queue (drain c) = [] \<and> state (drain c) = Closed \<and>
           concat (delivered (drain c)) =
             concat (map (encode env)
               (text_increments (events (messages_stream env (contextPrompt question matches))))) @
             encode env (newline # SOURCE_MARKER @ stringify env (sourcesPayload matches))"
proof -
  have "response (POST_rag env body_question document_source) = RagStream c"
    using assms(1) by simp
  from POST_rag_stream_cases [OF this] obtain question v data where
    q: "body_question = Some question"
    and v: "returned (generateEmbedding (embeddings_create env) question) = Inr v"
    and d: "match_documents env v (7 / 10) 3 = Inr data"
    and r: "POST_rag env body_question document_source =
             \<lparr>response = RagStream
                (ReadableStream (encode env) (pace env)
                   (messages_stream env
                      (contextPrompt question
                         (narrow document_source (case data of None \<Rightarrow> [] | Some docs \<Rightarrow> docs))))
                   (stringify env
                      (sourcesPayload
                         (narrow document_source (case data of None \<Rightarrow> [] | Some docs \<Rightarrow> docs))))),
              generation_requests =
                [contextPrompt question
                   (narrow document_source (case data of None \<Rightarrow> [] | Some docs \<Rightarrow> docs))]\<rparr>"
    by blast
  define matches where
    "matches = narrow document_source (case data of None \<Rightarrow> [] | Some docs \<Rightarrow> docs)"
  define s where "s = messages_stream env (contextPrompt question matches)"
  define json where "json = stringify env (sourcesPayload matches)"
  have c: "c = ReadableStream (encode env) (pace env) s json"
    and gs: "gs = [contextPrompt question matches]"
    using assms(1) r by (simp_all add: matches_def s_def json_def)
  have "failure s = None" using assms(2) gs by (simp add: s_def)
  then have cw: "closing_with
      (map (encode env) (text_increments (events s)) @ [encode env (newline # SOURCE_MARKER @ json)]) c"
    unfolding c by (rule ReadableStream_complete)
  have all: "delivered c @ queue c =
      map (encode env) (text_increments (events s)) @ [encode env (newline # SOURCE_MARKER @ json)]"
    and cr: "closeRequested c"
    using cw by (simp_all add: closing_with_def)
  have dr: "delivered (drain c) = delivered c @ queue c" "queue (drain c) = []"
    "state (drain c) = Closed"
    using drain_closing [OF cw] all by simp_all
  have bytes: "concat (delivered (drain c)) =
      concat (map (encode env) (text_increments (events s))) @
      encode env (newline # SOURCE_MARKER @ json)"
    unfolding dr(1) all by simp
  show ?thesis
    using q v d gs all cr dr bytes unfolding s_def json_def matches_def by blast
qed

text \<open>
  The separator of \<^verbatim>\<open>join\<close> and the prompt written out.
\<close>

lemma join_newline:
  "xs \<noteq> [] \<Longrightarrow> join [c] xs = tl (concat (map ((#) c) xs))"
proof (induction "[c]" xs rule: join.induct)
  case 1
  then show ?case by simp
next
  case (2 x)
  show ?case by simp
next
  case (3 x y ys)
  then show ?case by simp
qed

lemma contextPrompt_explicit:
  assumes "matches \<noteq> []"
  shows "contextPrompt question matches =
     ''Context from documents:'' @ [CHR 0x0A, CHR 0x0A] @
     tl (concat (map (\<lambda>doc. CHR 0x0A # content doc @ CHR 0x0A # ''---'') matches)) @
     CHR 0x0A # ''Question: '' @ question @ [CHR 0x0A, CHR 0x0A] @
     ''Answer based ONLY on the context above. Be specific and cite which information came from which part of the context.''"
proof -
  have "map (\<lambda>doc. content doc @ [newline] @ ''---'') matches \<noteq> []" using assms by simp
  from join_newline [OF this, of newline]
  show ?thesis by (simp add: contextPrompt_def newline_def comp_def)
qed

lemma cited_fields:
  "api_key cited"
  "match_documents cited v th k = Inr (Some [doc ''a.txt'' ''alpha'', unscored ''b.txt'' ''beta''])"
  "messages_stream cited prompt = greeting None" "encode cited = ascii"
  "stringify cited = render_sources" "pace cited = lazy_consumer"
  by (simp_all add: cited_def)

lemma cited_embedding:
  "returned (generateEmbedding (embeddings_create cited) q) = Inr []"
  using generateEmbedding_first_try [of "embeddings_create cited" q "[]"]
  by (simp add: cited_def try_create_def)

lemma POST_rag_cited:
  "POST_rag cited (Some ''q?'') None =
     \<lparr>response = RagStream
        (ReadableStream ascii lazy_consumer (greeting None)
           (render_sources (sourcesPayload [doc ''a.txt'' ''alpha'', unscored ''b.txt'' ''beta'']))),
      generation_requests =
        [contextPrompt ''q?'' [doc ''a.txt'' ''alpha'', unscored ''b.txt'' ''beta'']]\<rparr>"
  by (simp add: POST_rag_def narrow_def Let_def cited_embedding cited_fields)

text \<open>
  Claim C1. For every answering request that reaches generation and whose generation
  stream ends without an error, whatever the pace of the consumer: the matches are the
  candidates returned by the table, narrowed by a source filter that is not empty; the one
  prompt sent to the generative model holds the content of every match, each followed by a
  line \<^verbatim>\<open>---\<close>, in the order of the matches; the chunks handed to the output stream are
  the encoded text increments in the order of the events, followed by one chunk that encodes
  a newline, the marker \<^verbatim>\<open>__SOURCES__\<close> and the JSON text of the list that has, for every
  match in order, its content, its metadata and its similarity (0 when missing);
  \<^verbatim>\<open>close\<close> has been called; and a consumer that reads to the end receives exactly these
  chunks, after which the queue is empty and the stream is closed.
\<close>

theorem POST_rag_stream_complete:
  assumes "POST_rag env body_question document_source =
             \<lparr>response = RagStream c, generation_requests = gs\<rparr>"
    and "\<forall>p \<in> set gs. failure (messages_stream env p) = None"
  shows "\<exists>question v data candidates matches prompt payload.
           body_question = Some question \<and>
           returned (generateEmbedding (embeddings_create env) question) = Inr v \<and>
           match_documents env v (7 / 10) 3 = Inr data \<and>
           candidates = (case data of None \<Rightarrow> [] | Some docs \<Rightarrow> docs) \<and>
           matches =
             (case document_source of
                None \<Rightarrow> candidates
              | Some wanted \<Rightarrow>
                  if wanted = [] then candidates
                  else filter (\<lambda>doc. map_option metadata.source (metadata doc) = Some wanted)
                         candidates) \<and>
           matches \<noteq> [] \<and>
           prompt =
             ''Context from documents:'' @ [CHR 0x0A, CHR 0x0A] @
             tl (concat (map (\<lambda>doc. CHR 0x0A # content doc @ CHR 0x0A # ''---'') matches)) @
             CHR 0x0A # ''Question: '' @ question @ [CHR 0x0A, CHR 0x0A] @
             ''Answer based ONLY on the context above. Be specific and cite which information came from which part of the context.'' \<and>
           gs = [prompt] \<and>
           payload =
             map (\<lambda>m. Source (content m) (metadata m)
                          (case similarity m of None \<Rightarrow> 0 | Some s \<Rightarrow> s)) matches \<and>
           delivered c @ queue c =
             map (encode env) (text_increments (events (messages_stream env prompt))) @
             [encode env (CHR 0x0A # ''__SOURCES__'' @ stringify env payload)] \<and>
           closeRequested c \<and>
           delivered (drain c) = delivered c @ queue c \<and>
           queue (drain c) = [] \<and> state (drain c) = Closed \<and>
           concat (delivered (drain c)) =
             concat (map (encode env) (text_increments (events (messages_stream env prompt)))) @
             encode env (CHR 0x0A # ''__SOURCES__'' @ stringify env payload)"
proof -
  from POST_rag_stream_chunks [OF assms] obtain question v data matches where
    q: "body_question = Some question"
    and v: "returned (generateEmbedding (embeddings_create env) question) = Inr v"
    and d: "match_documents env v (7 / 10) 3 = Inr data"
    and m: "matches = narrow document_source (case data of None \<Rightarrow> [] | Some docs \<Rightarrow> docs)"
    and gs: "gs = [contextPrompt question matches]"
    and all: "delivered c @ queue c =
             map (encode env)
               (text_increments (events (messages_stream env (contextPrompt question matches)))) @
             [encode env (newline # SOURCE_MARKER @ stringify env (sourcesPayload matches))]"
    and cr: "closeRequested c"
    and dr: "delivered (drain c) = delivered c @ queue c" "queue (drain c) = []"
      "state (drain c) = Closed"
    and bytes: "concat (delivered (drain c)) =
             concat (map (encode env)
               (text_increments (events (messages_stream env (contextPrompt question matches))))) @
             encode env (newline # SOURCE_MARKER @ stringify env (sourcesPayload matches))"
    by blast
  have "response (POST_rag env body_question document_source) = RagStream c"
    using assms(1) by simp
  from POST_rag_stream_cases [OF this] q v d m have ne: "matches \<noteq> []" by auto
  define candidates where "candidates = (case data of None \<Rightarrow> [] | Some docs \<Rightarrow> docs)"
  define prompt where "prompt = contextPrompt question matches"
  define payload where "payload = sourcesPayload matches"
  have m': "matches =
             (case document_source of
                None \<Rightarrow> candidates
              | Some wanted \<Rightarrow>
                  if wanted = [] then candidates
                  else filter (\<lambda>doc. map_option metadata.source (metadata doc) = Some wanted)
                         candidates)"
    unfolding m candidates_def narrow_def source_of_def
    by (simp add: map_option_case split: option.split)
  have p': "prompt =
             ''Context from documents:'' @ [CHR 0x0A, CHR 0x0A] @
             tl (concat (map (\<lambda>doc. CHR 0x0A # content doc @ CHR 0x0A # ''---'') matches)) @
             CHR 0x0A # ''Question: '' @ question @ [CHR 0x0A, CHR 0x0A] @
             ''Answer based ONLY on the context above. Be specific and cite which information came from which part of the context.''"
    unfolding prompt_def by (rule contextPrompt_explicit [OF ne])
  have pl': "payload =
             map (\<lambda>m. Source (content m) (metadata m)
                          (case similarity m of None \<Rightarrow> 0 | Some s \<Rightarrow> s)) matches"
    unfolding payload_def sourcesPayload_def ..
  have gs': "gs = [prompt]" using gs by (simp add: prompt_def)
  have all': "delivered c @ queue c =
             map (encode env) (text_increments (events (messages_stream env prompt))) @
             [encode env (CHR 0x0A # ''__SOURCES__'' @ stringify env payload)]"
    using all by (simp add: prompt_def payload_def newline_def SOURCE_MARKER_def)
  have bytes': "concat (delivered (drain c)) =
             concat (map (encode env) (text_increments (events (messages_stream env prompt)))) @
             encode env (CHR 0x0A # ''__SOURCES__'' @ stringify env payload)"
    using bytes by (simp add: prompt_def payload_def newline_def SOURCE_MARKER_def)
  have c0: "candidates = (case data of None \<Rightarrow> [] | Some docs \<Rightarrow> docs)"
    by (rule candidates_def)
  from q v d c0 m' ne p' gs' pl' all' cr dr bytes' show ?thesis
    by (intro exI [of _ question] exI [of _ v] exI [of _ data] exI [of _ candidates]
        exI [of _ matches] exI [of _ prompt] exI [of _ payload] conjI) assumption+
qed

theorem POST_rag_stream_complete_witness:
  "generation_requests (POST_rag cited (Some ''q?'') None) =
     [''Context from documents:'' @ [CHR 0x0A, CHR 0x0A] @
      ''alpha'' @ CHR 0x0A # ''---'' @ CHR 0x0A # ''beta'' @ CHR 0x0A # ''---'' @
      CHR 0x0A # ''Question: q?'' @ [CHR 0x0A, CHR 0x0A] @
      ''Answer based ONLY on the context above. Be specific and cite which information came from which part of the context.''] \<and>
   (\<exists>c. response (POST_rag cited (Some ''q?'') None) = RagStream c \<and>
      delivered (drain c) =
        [ascii ''Hi'', ascii ''!'',
         ascii (CHR 0x0A # ''__SOURCES__{alpha,a.txt,+}{beta,b.txt,0}'')] \<and>
      queue (drain c) = [] \<and> state (drain c) = Closed)"
proof -
  have f: "\<forall>p \<in> set [contextPrompt ''q?'' [doc ''a.txt'' ''alpha'', unscored ''b.txt'' ''beta'']].
             failure (messages_stream cited p) = None"
    by (simp add: cited_fields greeting_def)
  have ev: "text_increments (events (greeting None)) = [''Hi'', ''!'']"
    by (simp add: greeting_def)
  from POST_rag_stream_complete [OF POST_rag_cited f]
  obtain data candidates matches prompt payload where
    d: "match_documents cited [] (7 / 10) 3 = Inr data"
    and c: "candidates = (case data of None \<Rightarrow> [] | Some docs \<Rightarrow> docs)"
    and m: "matches = candidates"
    and p: "prompt =
             ''Context from documents:'' @ [CHR 0x0A, CHR 0x0A] @
             tl (concat (map (\<lambda>doc. CHR 0x0A # content doc @ CHR 0x0A # ''---'') matches)) @
             CHR 0x0A # ''Question: '' @ ''q?'' @ [CHR 0x0A, CHR 0x0A] @
             ''Answer based ONLY on the context above. Be specific and cite which information came from which part of the context.''"
    and g: "[contextPrompt ''q?'' [doc ''a.txt'' ''alpha'', unscored ''b.txt'' ''beta'']] = [prompt]"
    and pl: "payload =
             map (\<lambda>m. Source (content m) (metadata m)
                          (case similarity m of None \<Rightarrow> 0 | Some s \<Rightarrow> s)) matches"
    and dl: "delivered (drain (ReadableStream ascii lazy_consumer (greeting None)
               (render_sources (sourcesPayload [doc ''a.txt'' ''alpha'', unscored ''b.txt'' ''beta''])))) =
             map (encode cited) (text_increments (events (messages_stream cited prompt))) @
             [encode cited (CHR 0x0A # ''__SOURCES__'' @ stringify cited payload)]"
    and qe: "queue (drain (ReadableStream ascii lazy_consumer (greeting None)
               (render_sources (sourcesPayload [doc ''a.txt'' ''alpha'', unscored ''b.txt'' ''beta''])))) = []"
    and st: "state (drain (ReadableStream ascii lazy_consumer (greeting None)
               (render_sources (sourcesPayload [doc ''a.txt'' ''alpha'', unscored ''b.txt'' ''beta''])))) = Closed"
    by (auto simp: cited_embedding)
  have ms: "matches = [doc ''a.txt'' ''alpha'', unscored ''b.txt'' ''beta'']"
    using d c m by (auto simp: cited_fields)
  have p2: "prompt =
      ''Context from documents:'' @ [CHR 0x0A, CHR 0x0A] @
      ''alpha'' @ CHR 0x0A # ''---'' @ CHR 0x0A # ''beta'' @ CHR 0x0A # ''---'' @
      CHR 0x0A # ''Question: q?'' @ [CHR 0x0A, CHR 0x0A] @
      ''Answer based ONLY on the context above. Be specific and cite which information came from which part of the context.''"
    unfolding p ms by (simp add: doc_def unscored_def)
  have r: "render_sources payload = ''{alpha,a.txt,+}{beta,b.txt,0}''"
    unfolding pl ms by (simp add: render_sources_def doc_def unscored_def)
  have dl2: "delivered (drain (ReadableStream ascii lazy_consumer (greeting None)
               (render_sources (sourcesPayload [doc ''a.txt'' ''alpha'', unscored ''b.txt'' ''beta''])))) =
        [ascii ''Hi'', ascii ''!'',
         ascii (CHR 0x0A # ''__SOURCES__{alpha,a.txt,+}{beta,b.txt,0}'')]"
    unfolding dl by (simp add: cited_fields ev r)
  have g2: "generation_requests (POST_rag cited (Some ''q?'') None) = [prompt]"
    using g by (simp add: POST_rag_cited)
  show ?thesis
    unfolding g2 p2 [symmetric]
    using dl2 qe st by (simp add: POST_rag_cited)
qed

text \<open>
  A generation stream that throws after two increments, with a consumer that has not read
  yet: both increments were enqueued before the error, and afterwards the stream is errored
  with nothing delivered and nothing queued.
\<close>

theorem POST_rag_stream_failure_counterexample:
  "for_await ascii lazy_consumer 0 (events (greeting (Some (Error ''overloaded'')))) new_controller =
     (None, 2, \<lparr>queue = [ascii ''Hi'', ascii ''!''], delivered = [], state = Readable,
                closeRequested = False\<rparr>) \<and>
   POST_rag (demo (greeting (Some (Error ''overloaded''))) lazy_consumer) (Some ''q?'') None =
     \<lparr>response = RagStream \<lparr>queue = [], delivered = [], state = Errored (Error ''overloaded''),
                              closeRequested = False\<rparr>,
      generation_requests = [contextPrompt ''q?'' [doc ''a.txt'' ''alpha'']]\<rparr>"
  by (simp add: for_await_greeting_lazy POST_rag_def narrow_def Let_def demo_embedding demo_fields
      ReadableStream_greeting_lazy_failure)

text \<open>
  Claim C7, amended. If the generation stream throws after its events, then exactly one
  prompt was sent to the generative model; the output stream ends in the errored state with
  the error of the generation stream; the chunks the consumer had read when the loop ended
  are the chunks delivered, a prefix of the encoded increments, all of which had been
  enqueued; the queue is empty, so no chunk with the marker and the JSON text follows, and
  no later read changes the stream.
\<close>

theorem POST_rag_stream_failure:
  assumes "POST_rag env body_question document_source =
             \<lparr>response = RagStream c, generation_requests = gs\<rparr>"
    and "p \<in> set gs" and "failure (messages_stream env p) = Some e"
  shows "gs = [p] \<and> state c = Errored e \<and> queue c = [] \<and> reader_reads n c = c \<and>
         (\<exists>i before.
            for_await (encode env) (pace env) 0 (events (messages_stream env p)) new_controller =
              (None, i, before) \<and>
            delivered before @ queue before =
              map (encode env) (text_increments (events (messages_stream env p))) \<and>
            delivered c = delivered before) \<and>
         prefix (delivered c) (map (encode env) (text_increments (events (messages_stream env p))))"
proof -
  have "response (POST_rag env body_question document_source) = RagStream c"
    using assms(1) by simp
  from POST_rag_stream_cases [OF this] obtain question data where
    r: "POST_rag env body_question document_source =
             \<lparr>response = RagStream
                (ReadableStream (encode env) (pace env)
                   (messages_stream env
                      (contextPrompt question
                         (narrow document_source (case data of None \<Rightarrow> [] | Some docs \<Rightarrow> docs))))
                   (stringify env
                      (sourcesPayload
                         (narrow document_source (case data of None \<Rightarrow> [] | Some docs \<Rightarrow> docs))))),
              generation_requests =
                [contextPrompt question
                   (narrow document_source (case data of None \<Rightarrow> [] | Some docs \<Rightarrow> docs))]\<rparr>"
    by blast
  define matches where
    "matches = narrow document_source (case data of None \<Rightarrow> [] | Some docs \<Rightarrow> docs)"
  define json where "json = stringify env (sourcesPayload matches)"
  have gs: "gs = [contextPrompt question matches]"
    using assms(1) r by (simp add: matches_def)
  then have p: "p = contextPrompt question matches" using assms(2) by simp
  have c: "c = ReadableStream (encode env) (pace env) (messages_stream env p) json"
    using assms(1) r by (simp add: matches_def json_def p)
  obtain i before where
    fa: "for_await (encode env) (pace env) 0 (events (messages_stream env p)) new_controller =
           (None, i, before)"
    and o: "open_with (map (encode env) (text_increments (events (messages_stream env p)))) before"
    and fin: "c = before\<lparr>queue := [], state := Errored e\<rparr>"
    using ReadableStream_failure [OF assms(3), of "encode env" "pace env" json] c by blast
  have st: "state c = Errored e" and qe: "queue c = []" and de: "delivered c = delivered before"
    using fin by simp_all
  have rr: "reader_reads n c = c" by (rule reader_reads_not_readable) (simp add: st)
  have all: "delivered before @ queue before =
               map (encode env) (text_increments (events (messages_stream env p)))"
    using o by (simp add: open_with_def)
  have pre: "prefix (delivered c)
               (map (encode env) (text_increments (events (messages_stream env p))))"
    unfolding de all [symmetric] by simp
  show ?thesis
    using gs p st qe rr fa all de pre by blast
qed

theorem POST_rag_stream_failure_witness:
  "state (ReadableStream ascii one_read_consumer (greeting (Some (Error ''overloaded''))) ''[...]'') =
     Errored (Error ''overloaded'') \<and>
   queue (ReadableStream ascii one_read_consumer (greeting (Some (Error ''overloaded''))) ''[...]'') = [] \<and>
   delivered (ReadableStream ascii one_read_consumer (greeting (Some (Error ''overloaded''))) ''[...]'') =
     [ascii ''Hi'']"
proof -
  have m: "contextPrompt ''q?'' [doc ''a.txt'' ''alpha''] \<in>
             set [contextPrompt ''q?'' [doc ''a.txt'' ''alpha'']]" by simp
  have f: "failure (messages_stream (demo (greeting (Some (Error ''overloaded''))) one_read_consumer)
             (contextPrompt ''q?'' [doc ''a.txt'' ''alpha''])) = Some (Error ''overloaded'')"
    by (simp add: demo_fields greeting_def)
  show ?thesis
    using POST_rag_stream_failure [OF POST_rag_demo m f, of 0]
    by (auto simp: demo_fields for_await_greeting_one_read)
qed

end
